theory Spec2Isabelle
  imports Complex_Main "HOL-Library.Multiset"
begin

section \<open>Numbers\<close>

text \<open>
  The component computes with JavaScript numbers. They are modelled as the real numbers
  they denote: rounding of IEEE doubles is not part of the model. The one place where the
  code can produce a non-number is the remainder operator \<open>%\<close> with a zero divisor, whose
  result \<open>NaN\<close> is the value \<open>None\<close> here.
\<close>

definition js_trunc :: "real \<Rightarrow> int" where
  "js_trunc x = (if x < 0 then \<lceil>x\<rceil> else \<lfloor>x\<rfloor>)"

text \<open>\<open>a % b\<close>: the remainder of the division truncated towards zero; it has the sign of \<open>a\<close>.\<close>

definition js_mod :: "real \<Rightarrow> real \<Rightarrow> real option" where
  "js_mod a b = (if b = 0 then None else Some (a - b * of_int (js_trunc (a / b))))"

text \<open>\<open>x !== y\<close> on numbers: \<open>NaN\<close> differs from everything, itself included.\<close>

definition js_strict_neq :: "real option \<Rightarrow> real option \<Rightarrow> bool" where
  "js_strict_neq x y = (x = None \<or> y = None \<or> x \<noteq> y)"

section \<open>Constants of \<open>HeroRoulette.tsx\<close>\<close>

definition BASE_SPIN_DURATION :: real where
  "BASE_SPIN_DURATION = 8200"

definition SPIN_DURATION_PER_LOOP :: real where
  "SPIN_DURATION_PER_LOOP = 1800"

definition DEFAULT_HERO_SLOT_WIDTH :: real where
  "DEFAULT_HERO_SLOT_WIDTH = 168"

definition REPEAT_COUNT :: real where
  "REPEAT_COUNT = 6"

text \<open>\<open>const middleRepeatIndex = Math.floor(REPEAT_COUNT / 2)\<close>\<close>

definition middleRepeatIndex :: int where
  "middleRepeatIndex = \<lfloor>REPEAT_COUNT / 2\<rfloor>"

section \<open>The easing curve\<close>

definition mapProgressToDistance :: "real \<Rightarrow> real" where
  "mapProgressToDistance progress =
     (if progress \<le> 0 then 0
      else if progress \<ge> 1 then 1
      else
        let clamped = min (max progress 0) 1 in
        if clamped < 0.5 then 16 * clamped ^ 5
        else
          let mirrored = - 2 * clamped + 2 in
          1 - mirrored ^ 5 / 2)"

section \<open>The offset shown for a raw scroll offset\<close>

text \<open>
  \<open>applyVisualOffset\<close>, line 421:
  \<open>const offsetWithinLoop = ((rawOffset % loopWidth) + loopWidth) % loopWidth\<close>.
\<close>

definition offsetWithinLoop :: "real \<Rightarrow> real \<Rightarrow> real option" where
  "offsetWithinLoop loopWidth rawOffset =
     Option.bind (js_mod rawOffset loopWidth) (\<lambda>r. js_mod (r + loopWidth) loopWidth)"

text \<open>
  The number that \<open>applyVisualOffset\<close> writes into the strip's \<open>translate3d\<close>, as a function
  of what it reads: the captured \<open>middleRepeatIndex\<close>, \<open>heroSlotWidthRef.current\<close>, the
  length of \<open>baseHeroesRef.current\<close> and its argument. \<open>!slotWidth || !baseLength\<close> holds
  when either is zero (or when the width is \<open>NaN\<close>, which the ref never holds:
  \<open>measureHeroSlotWidth\<close> stores finite positive widths only).
\<close>

definition visualOffset :: "int \<Rightarrow> real \<Rightarrow> nat \<Rightarrow> real \<Rightarrow> real option" where
  "visualOffset mri slotWidth baseLength rawOffset =
     (if slotWidth = 0 \<or> baseLength = 0 then Some rawOffset
      else
        let loopWidth = real baseLength * slotWidth in
        case offsetWithinLoop loopWidth rawOffset of
          None \<Rightarrow> None
        | Some inLoop \<Rightarrow> Some (inLoop - of_int mri * loopWidth))"

section \<open>Heroes and the filtered pool\<close>

record hero =
  hero_id :: string
  hero_name :: string
  displayName :: string
  cdnName :: string

datatype HeroRole = Carry | Mid | Offlane | SoftSupport | HardSupport

text \<open>
  The fields \<open>id\<close> and \<open>name\<close> of \<open>Hero\<close> are \<open>hero_id\<close> and \<open>hero_name\<close> here.
  The memo \<open>activeHeroes\<close>: the catalogue filtered by the selected roles, then by the bans.
  \<open>heroesRolesMap[hero.displayName] || []\<close> is the empty list for a missing key.
\<close>

definition activeHeroes ::
  "HeroRole list \<Rightarrow> string set \<Rightarrow> hero list \<Rightarrow> (string \<rightharpoonup> HeroRole list) \<Rightarrow> hero list" where
  "activeHeroes selectedRoles bannedHeroIds heroes heroesRolesMap =
     (let baseList =
        (if length selectedRoles = 0 then heroes
         else filter (\<lambda>h.
                let heroRolesList = (case heroesRolesMap (displayName h) of
                                       None \<Rightarrow> [] | Some rs \<Rightarrow> rs)
                in list_ex (\<lambda>role. role \<in> set selectedRoles) heroRolesList) heroes)
      in if bannedHeroIds = {} then baseList
         else filter (\<lambda>h. hero_id h \<notin> bannedHeroIds) baseList)"

section \<open>The random source\<close>

text \<open>
  \<open>Math.random()\<close> reads the next draw of a sequence fixed in advance: the sequence and the
  number of draws taken so far. The platform promises draws in \<open>[0, 1)\<close>; the theorems that
  need the promise assume \<open>unit_draws\<close>.
\<close>

type_synonym rand = "(nat \<Rightarrow> real) \<times> nat"

definition Math_random :: "rand \<Rightarrow> real \<times> rand" where
  "Math_random g = (fst g (snd g), (fst g, Suc (snd g)))"

definition unit_draws :: "rand \<Rightarrow> bool" where
  "unit_draws g = (\<forall>i. 0 \<le> fst g i \<and> fst g i < 1)"

section \<open>\<open>shuffleList\<close>\<close>

text \<open>
  \<open>[array[i], array[j]] = [array[j], array[i]]\<close>. With draws in \<open>[0, 1)\<close> the index \<open>j\<close>
  is in \<open>0..i\<close>; outside that range JavaScript would store \<open>undefined\<close>, which a list of
  heroes cannot hold, and the model leaves the array as it is.
\<close>

definition swap :: "'a list \<Rightarrow> nat \<Rightarrow> int \<Rightarrow> 'a list" where
  "swap array i j =
     (if 0 \<le> j \<and> nat j < length array \<and> i < length array
      then (array[i := array ! nat j])[nat j := array ! i]
      else array)"

text \<open>The loop \<open>for (let i = array.length - 1; i > 0; i -= 1)\<close>, entered with \<open>i\<close>.\<close>

fun shuffleLoop :: "nat \<Rightarrow> 'a list \<Rightarrow> rand \<Rightarrow> 'a list \<times> rand" where
  "shuffleLoop 0 array g = (array, g)"
| "shuffleLoop (Suc k) array g =
     (case Math_random g of (r, g') \<Rightarrow>
        let j = \<lfloor>r * (real (Suc k) + 1)\<rfloor>
        in shuffleLoop k (swap array (Suc k) j) g')"

definition shuffleList :: "'a list \<Rightarrow> rand \<Rightarrow> 'a list \<times> rand" where
  "shuffleList source g = shuffleLoop (length source - 1) source g"

text \<open>\<open>base[i]\<close>: \<open>undefined\<close>, here \<open>None\<close>, outside the array.\<close>

definition js_index :: "'a list \<Rightarrow> int \<Rightarrow> 'a option" where
  "js_index xs i = (if 0 \<le> i \<and> nat i < length xs then Some (xs ! nat i) else None)"

section \<open>The controller's state\<close>

text \<open>
  The variables that the frame callback \<open>step\<close> closes over: the constants of the spin that
  created it, and the two it assigns, \<open>animationStart\<close> and \<open>lastHeroIndex\<close>.
\<close>

record step_env =
  slotWidth :: real
  shuffledHeroes :: "hero list"
  availableCount :: nat
  randomIndex :: int
  startOffset :: real
  baselineIndex :: int
  extraLoops :: int
  randomHero :: "hero option"
  spinDuration :: real
  targetIndex :: int
  finalOffset :: real
  totalDistance :: real
  animationStart :: real
  lastHeroIndex :: "real option"

text \<open>The strip's \<open>style.transform\<close>: not set yet, or \<open>translate3d(x px, 0, 0)\<close>.\<close>

datatype transform = NoTransform | Translate3d "real option"

text \<open>
  The React state and the refs of the component that the roulette uses, the host's queue
  of callbacks registered with \<open>requestAnimationFrame\<close> by the spin, the random source, and
  the calls made to the two sound functions (the speed ratio of each tick, in order).
  \<open>rouletteRef\<close> is \<open>None\<close> while the strip is not mounted. The state variables \<open>heroes\<close>,
  \<open>selectedRoles\<close>, \<open>bannedHeroIds\<close> and \<open>heroesRolesMap\<close> carry the prefix \<open>st_\<close>: the
  plain names are the parameters of the functions that close over one render's values.
\<close>

record ctrl =
  isSpinning :: bool
  selectedHero :: "hero option"
  baseHeroesState :: "hero list"
  heroSlotWidth :: real
  rouletteRef :: "transform option"
  animationFrameRef :: "nat option"
  isSpinningRef :: bool
  heroSlotWidthRef :: real
  baseHeroesRef :: "hero list"
  virtualOffsetRef :: real
  frameQueue :: "(nat \<times> step_env) list"
  nextFrameId :: nat
  random :: rand
  tickSounds :: "real list"
  winSounds :: nat
  st_heroes :: "hero list"
  st_selectedRoles :: "HeroRole list"
  st_bannedHeroIds :: "string set"
  st_heroesRolesMap :: "string \<rightharpoonup> HeroRole list"

definition requestAnimationFrame :: "step_env \<Rightarrow> ctrl \<Rightarrow> nat \<times> ctrl" where
  "requestAnimationFrame callback s =
     (nextFrameId s,
      s\<lparr>frameQueue := frameQueue s @ [(nextFrameId s, callback)],
        nextFrameId := Suc (nextFrameId s)\<rparr>)"

definition cancelAnimationFrame :: "nat \<Rightarrow> ctrl \<Rightarrow> ctrl" where
  "cancelAnimationFrame handle s =
     s\<lparr>frameQueue := filter (\<lambda>entry. fst entry \<noteq> handle) (frameQueue s)\<rparr>"

definition playTickSound :: "real \<Rightarrow> ctrl \<Rightarrow> ctrl" where
  "playTickSound speedRatio s = s\<lparr>tickSounds := tickSounds s @ [speedRatio]\<rparr>"

definition playWinSound :: "ctrl \<Rightarrow> ctrl" where
  "playWinSound s = s\<lparr>winSounds := Suc (winSounds s)\<rparr>"

section \<open>Measuring the slot\<close>

text \<open>
  What the DOM gives for the first \<open>.roulette-hero\<close>: the width of its bounding box and its
  two margins as \<open>parseFloat\<close> reads them (\<open>None\<close> for \<open>NaN\<close>, which \<open>|| 0\<close> replaces).
  \<open>measureHeroSlotWidth\<close> receives \<open>None\<close> when no slot is rendered. Every real is finite,
  so \<open>Number.isFinite\<close> has no branch of its own.
\<close>

record slot_rect =
  rectWidth :: real
  marginLeft :: "real option"
  marginRight :: "real option"

definition measureHeroSlotWidth :: "slot_rect option \<Rightarrow> ctrl \<Rightarrow> ctrl" where
  "measureHeroSlotWidth firstHero s =
     (case rouletteRef s of
        None \<Rightarrow> s
      | Some _ \<Rightarrow>
         (case firstHero of
            None \<Rightarrow> s
          | Some rect \<Rightarrow>
              if rectWidth rect = 0 then s
              else
                let ml = (case marginLeft rect of None \<Rightarrow> 0 | Some m \<Rightarrow> m);
                    mr = (case marginRight rect of None \<Rightarrow> 0 | Some m \<Rightarrow> m);
                    computedWidth = rectWidth rect + ml + mr
                in if computedWidth \<le> 0 then s
                   else if \<bar>computedWidth - heroSlotWidthRef s\<bar> \<le> 0.5 then s
                   else s\<lparr>heroSlotWidthRef := computedWidth, heroSlotWidth := computedWidth\<rparr>))"

section \<open>\<open>applyVisualOffset\<close>\<close>

definition applyVisualOffset :: "real \<Rightarrow> ctrl \<Rightarrow> ctrl" where
  "applyVisualOffset rawOffset s =
     (let s1 = s\<lparr>virtualOffsetRef := rawOffset\<rparr>
      in case rouletteRef s1 of
           None \<Rightarrow> s1
         | Some _ \<Rightarrow>
             s1\<lparr>rouletteRef :=
                  Some (Translate3d (visualOffset middleRepeatIndex (heroSlotWidthRef s1)
                                       (length (baseHeroesRef s1)) rawOffset))\<rparr>)"

section \<open>The frame callback\<close>

text \<open>
  The first lines of \<open>step\<close>: \<open>if (!animationStart) animationStart = timestamp\<close>, which
  assigns while \<open>animationStart\<close> is still 0, and then
  \<open>progress = Math.min(elapsed / spinDuration, 1)\<close> with \<open>elapsed = timestamp - animationStart\<close>.
\<close>

definition frameStart :: "step_env \<Rightarrow> real \<Rightarrow> real" where
  "frameStart env timestamp = (if animationStart env = 0 then timestamp else animationStart env)"

definition frameProgress :: "step_env \<Rightarrow> real \<Rightarrow> real" where
  "frameProgress env timestamp =
     (let elapsed = timestamp - frameStart env timestamp
      in min (elapsed / spinDuration env) 1)"

definition step :: "step_env \<Rightarrow> real \<Rightarrow> ctrl \<Rightarrow> ctrl" where
  "step env timestamp s =
     (let start = frameStart env timestamp;
          progress = frameProgress env timestamp;
          easedProgress = mapProgressToDistance progress;
          currentOffset = startOffset env + totalDistance env * easedProgress;
          s1 = applyVisualOffset currentOffset s;
          baseLength = length (shuffledHeroes env);
          ticked =
            (if slotWidth env > 0 \<and> baseLength > 0 then
               let rawIndex = \<lfloor>- currentOffset / slotWidth env\<rfloor>;
                   heroIndex = Option.bind (js_mod (of_int rawIndex) (real baseLength))
                                 (\<lambda>r. js_mod (r + real baseLength) (real baseLength))
               in if js_strict_neq heroIndex (lastHeroIndex env)
                  then (playTickSound (max 0.05 (1 - progress)) s1, heroIndex)
                  else (s1, lastHeroIndex env)
             else (s1, lastHeroIndex env));
          s2 = fst ticked;
          env' = env\<lparr>animationStart := start, lastHeroIndex := snd ticked\<rparr>
      in if progress < 1 then
           (case requestAnimationFrame env' s2 of
              (handle, s3) \<Rightarrow> s3\<lparr>animationFrameRef := Some handle\<rparr>)
         else
           playWinSound
             ((applyVisualOffset (finalOffset env)
                 (s2\<lparr>animationFrameRef := None, isSpinningRef := False, isSpinning := False\<rparr>))
              \<lparr>selectedHero := randomHero env\<rparr>))"

text \<open>
  The host's frame: the callbacks registered so far are taken off the queue and each is
  called with the frame's timestamp.
\<close>

definition animationFrame :: "real \<Rightarrow> ctrl \<Rightarrow> ctrl" where
  "animationFrame timestamp s =
     fold (\<lambda>entry. step (snd entry) timestamp) (frameQueue s) (s\<lparr>frameQueue := []\<rparr>)"

section \<open>\<open>spinRoulette\<close>, \<open>resetRoulette\<close> and the pool effect\<close>

text \<open>
  Lines 625 to 629: the first draw, and the second and third behind the short-circuit
  \<open>availableCount > 1 && randomIndex === 0 && Math.random() < 0.35\<close>.
\<close>

definition drawRandomIndex :: "nat \<Rightarrow> rand \<Rightarrow> int \<times> rand" where
  "drawRandomIndex poolSize g =
     (case Math_random g of (r1, g1) \<Rightarrow>
        let first = \<lfloor>r1 * real poolSize\<rfloor> in
        if poolSize > 1 \<and> first = 0 then
          (case Math_random g1 of (r2, g2) \<Rightarrow>
             if r2 < 0.35 then
               (case Math_random g2 of (r3, g3) \<Rightarrow> (1 + \<lfloor>r3 * (real poolSize - 1)\<rfloor>, g3))
             else (first, g2))
        else (first, g1))"

text \<open>
  \<open>spinRoulette\<close> of a render whose memo and state are \<open>active\<close> and \<open>heroes\<close>, with the DOM
  answering \<open>firstHero\<close> to the measurement.
\<close>

definition spinRoulette :: "slot_rect option \<Rightarrow> hero list \<Rightarrow> hero list \<Rightarrow> ctrl \<Rightarrow> ctrl" where
  "spinRoulette firstHero active heroes s0 =
     (if isSpinningRef s0 then s0
      else
        let s1 = (case animationFrameRef s0 of
                    None \<Rightarrow> s0
                  | Some handle \<Rightarrow>
                      if handle = 0 then s0
                      else (cancelAnimationFrame handle s0)\<lparr>animationFrameRef := None\<rparr>);
            s2 = s1\<lparr>isSpinningRef := True, isSpinning := True, selectedHero := None\<rparr>;
            s3 = measureHeroSlotWidth firstHero s2;
            width = heroSlotWidthRef s3;
            availableHeroes = (if length active > 0 then active else heroes)
        in case shuffleList availableHeroes (random s3) of (shuffled, g) \<Rightarrow>
          let s4 = s3\<lparr>random := g, baseHeroesRef := shuffled, baseHeroesState := shuffled\<rparr>;
              poolSize = length shuffled
          in if poolSize = 0 then s4\<lparr>isSpinningRef := False, isSpinning := False\<rparr>
             else
               (case drawRandomIndex poolSize (random s4) of (index, g1) \<Rightarrow>
                  let start = - (of_int middleRepeatIndex * real poolSize * width);
                      s5 = applyVisualOffset start (s4\<lparr>random := g1\<rparr>);
                      baseline = middleRepeatIndex * int poolSize
                  in case Math_random (random s5) of (r, g2) \<Rightarrow>
                    let loops = 2 + \<lfloor>r * 4\<rfloor>;
                        target = baseline + loops * int poolSize + index;
                        final = - (of_int target * width);
                        env = \<lparr>slotWidth = width,
                               shuffledHeroes = shuffled,
                               availableCount = poolSize,
                               randomIndex = index,
                               startOffset = start,
                               baselineIndex = baseline,
                               extraLoops = loops,
                               randomHero = js_index shuffled index,
                               spinDuration = BASE_SPIN_DURATION
                                              + of_int loops * SPIN_DURATION_PER_LOOP,
                               targetIndex = target,
                               finalOffset = final,
                               totalDistance = final - start,
                               animationStart = 0,
                               lastHeroIndex = Some (- 1)\<rparr>
                    in case requestAnimationFrame env (s5\<lparr>random := g2\<rparr>) of
                         (handle, s6) \<Rightarrow> s6\<lparr>animationFrameRef := Some handle\<rparr>))"

text \<open>
  \<open>const initialOffset = -(middleRepeatIndex * safeHeroCount * heroSlotWidth)\<close> of a render,
  with \<open>safeHeroCount = Math.max(activeHeroes.length, 1)\<close>.
\<close>

definition initialOffset :: "hero list \<Rightarrow> ctrl \<Rightarrow> real" where
  "initialOffset active s =
     - (of_int middleRepeatIndex * real (max (length active) 1) * heroSlotWidth s)"

definition resetRoulette :: "hero list \<Rightarrow> hero list \<Rightarrow> ctrl \<Rightarrow> ctrl" where
  "resetRoulette active heroes s =
     (let s1 = s\<lparr>selectedHero := None\<rparr>;
          sourceHeroes = (if length active > 0 then active else heroes)
      in case shuffleList sourceHeroes (random s1) of (shuffled, g) \<Rightarrow>
           applyVisualOffset (initialOffset active s)
             (s1\<lparr>random := g, baseHeroesRef := shuffled, baseHeroesState := shuffled\<rparr>))"

text \<open>The effect on \<open>[activeHeroes, heroes]\<close> that rebuilds the strip's source.\<close>

definition rebuildPool :: "hero list \<Rightarrow> hero list \<Rightarrow> ctrl \<Rightarrow> ctrl" where
  "rebuildPool active heroes s =
     (let sourceHeroes = (if length active > 0 then active else heroes)
      in case shuffleList sourceHeroes (random s) of (shuffled, g) \<Rightarrow>
           s\<lparr>random := g, baseHeroesRef := shuffled, baseHeroesState := shuffled\<rparr>)"

text \<open>The controller at rest: the strip is rendered and no pool has been committed yet.\<close>

definition mounted :: "rand \<Rightarrow> ctrl" where
  "mounted g =
     \<lparr>isSpinning = False,
      selectedHero = None,
      baseHeroesState = [],
      heroSlotWidth = DEFAULT_HERO_SLOT_WIDTH,
      rouletteRef = Some NoTransform,
      animationFrameRef = None,
      isSpinningRef = False,
      heroSlotWidthRef = DEFAULT_HERO_SLOT_WIDTH,
      baseHeroesRef = [],
      virtualOffsetRef = - (of_int middleRepeatIndex * 1 * DEFAULT_HERO_SLOT_WIDTH),
      frameQueue = [],
      nextFrameId = 1,
      random = g,
      tickSounds = [],
      winSounds = 0,
      st_heroes = [],
      st_selectedRoles = [],
      st_bannedHeroIds = {},
      st_heroesRolesMap = Map.empty\<rparr>"

section \<open>The filters, the ban effect and the buttons\<close>

text \<open>The value of the memo \<open>activeHeroes\<close> in the render of a state.\<close>

definition activePool :: "ctrl \<Rightarrow> hero list" where
  "activePool s =
     activeHeroes (st_selectedRoles s) (st_bannedHeroIds s) (st_heroes s) (st_heroesRolesMap s)"

text \<open>
  \<open>loadHeroesData\<close>, lines 106 to 131, as far as the roulette is concerned: the result of
  \<open>loadHeroes()\<close> (\<open>null\<close> is \<open>None\<close>) and the function \<open>getHeroRoles\<close> of \<open>heroRoles.ts\<close>,
  which answers from a cache outside this component.
\<close>

definition loadHeroesData :: "hero list option \<Rightarrow> (string \<Rightarrow> HeroRole list) \<Rightarrow> ctrl \<Rightarrow> ctrl" where
  "loadHeroesData heroesData getHeroRoles s =
     (case heroesData of
        Some loaded \<Rightarrow>
          s\<lparr>st_heroes := loaded,
            st_heroesRolesMap :=
              fold (\<lambda>h rolesMap. rolesMap(displayName h \<mapsto> getHeroRoles (displayName h)))
                loaded Map.empty\<rparr>
      | None \<Rightarrow> s\<lparr>st_heroes := [], st_heroesRolesMap := Map.empty\<rparr>)"

definition toggleRole :: "HeroRole \<Rightarrow> ctrl \<Rightarrow> ctrl" where
  "toggleRole role s =
     s\<lparr>st_selectedRoles :=
         (if role \<in> set (st_selectedRoles s) then filter (\<lambda>r. r \<noteq> role) (st_selectedRoles s)
          else st_selectedRoles s @ [role])\<rparr>"

definition clearRoles :: "ctrl \<Rightarrow> ctrl" where
  "clearRoles s = s\<lparr>st_selectedRoles := []\<rparr>"

definition toggleHeroBan :: "string \<Rightarrow> ctrl \<Rightarrow> ctrl" where
  "toggleHeroBan heroId s =
     (if isSpinning s then s
      else s\<lparr>st_bannedHeroIds :=
               (if heroId \<in> st_bannedHeroIds s then st_bannedHeroIds s - {heroId}
                else insert heroId (st_bannedHeroIds s))\<rparr>)"

definition clearHeroBans :: "ctrl \<Rightarrow> ctrl" where
  "clearHeroBans s = s\<lparr>st_bannedHeroIds := {}\<rparr>"

text \<open>
  The effect on \<open>[bannedHeroIds, selectedHero]\<close>, lines 246 to 250: a selected hero that is
  banned is deselected.
\<close>

definition banEffect :: "ctrl \<Rightarrow> ctrl" where
  "banEffect s =
     (case selectedHero s of
        None \<Rightarrow> s
      | Some selected \<Rightarrow>
          if hero_id selected \<notin> st_bannedHeroIds s then s
          else s\<lparr>selectedHero := None\<rparr>)"

text \<open>The pool effect of the render of a state.\<close>

definition poolEffect :: "ctrl \<Rightarrow> ctrl" where
  "poolEffect s = rebuildPool (activePool s) (st_heroes s) s"

text \<open>
  The spin button, lines 843 to 849: \<open>onClick={spinRoulette}\<close> with
  \<open>disabled={isSpinning || activeHeroCount === 0}\<close>. It is the only caller of \<open>spinRoulette\<close>,
  and a disabled button delivers no click.
\<close>

definition pressSpin :: "slot_rect option \<Rightarrow> ctrl \<Rightarrow> ctrl" where
  "pressSpin firstHero s =
     (if isSpinning s \<or> length (activePool s) = 0 then s
      else spinRoulette firstHero (activePool s) (st_heroes s) s)"


text \<open>
  The cleanup of the mount effect, lines 528 to 532:
  \<open>if (animationFrameRef.current) cancelAnimationFrame(animationFrameRef.current)\<close>.
\<close>

definition unmount :: "ctrl \<Rightarrow> ctrl" where
  "unmount s =
     (case animationFrameRef s of
        None \<Rightarrow> s
      | Some handle \<Rightarrow> if handle = 0 then s else cancelAnimationFrame handle s)"

text \<open>
  The states the controller passes through: user actions, effects and frames, in any
  order and with any arguments. The rules for \<open>spinRoulette\<close>, \<open>resetRoulette\<close> and
  \<open>rebuildPool\<close> take any lists, those of the render included, so what the buttons and the
  pool effect do is covered; the handlers of the filters are taken without the \<open>disabled\<close>
  attributes of their controls.
\<close>

inductive reachable :: "ctrl \<Rightarrow> bool" where
  r_mounted: "reachable (mounted g)"
| r_spin: "reachable s \<Longrightarrow> reachable (spinRoulette firstHero active heroes s)"
| r_frame: "reachable s \<Longrightarrow> reachable (animationFrame timestamp s)"
| r_reset: "reachable s \<Longrightarrow> reachable (resetRoulette active heroes s)"
| r_rebuild: "reachable s \<Longrightarrow> reachable (rebuildPool active heroes s)"
| r_measure: "reachable s \<Longrightarrow> reachable (measureHeroSlotWidth firstHero s)"
| r_offset: "reachable s \<Longrightarrow> reachable (applyVisualOffset rawOffset s)"
| r_load: "reachable s \<Longrightarrow> reachable (loadHeroesData heroesData getHeroRoles s)"
| r_toggleRole: "reachable s \<Longrightarrow> reachable (toggleRole role s)"
| r_clearRoles: "reachable s \<Longrightarrow> reachable (clearRoles s)"
| r_toggleBan: "reachable s \<Longrightarrow> reachable (toggleHeroBan heroId s)"
| r_clearBans: "reachable s \<Longrightarrow> reachable (clearHeroBans s)"
| r_banEffect: "reachable s \<Longrightarrow> reachable (banEffect s)"

section \<open>Sample data\<close>

text \<open>
  Four heroes, a random source whose every draw is 0, an empty role map and a
  \<open>getHeroRoles\<close> that makes every hero a carry, for the worked examples.
\<close>

definition axe :: hero where
  "axe = \<lparr>hero_id = ''1'', hero_name = ''Axe'', displayName = ''Axe'', cdnName = ''axe''\<rparr>"

definition bane :: hero where
  "bane = \<lparr>hero_id = ''2'', hero_name = ''Bane'', displayName = ''Bane'', cdnName = ''bane''\<rparr>"

definition crystal :: hero where
  "crystal = \<lparr>hero_id = ''5'', hero_name = ''Crystal Maiden'',
               displayName = ''Crystal Maiden'', cdnName = ''crystal_maiden''\<rparr>"

definition drow :: hero where
  "drow = \<lparr>hero_id = ''6'', hero_name = ''Drow Ranger'',
            displayName = ''Drow Ranger'', cdnName = ''drow_ranger''\<rparr>"

definition zero_draws :: "nat \<Rightarrow> real" where
  "zero_draws i = 0"

definition no_roles :: "string \<rightharpoonup> HeroRole list" where
  "no_roles = Map.empty"

definition all_carry :: "string \<Rightarrow> HeroRole list" where
  "all_carry heroName = [Carry]"

text \<open>
  States that the buttons and effects lead to from \<open>mounted\<close>: a catalogue of one hero and
  one of two, loaded and committed by the pool effect; the catalogue of one with its hero
  banned; a catalogue of four with three heroes banned one after the other, the pool
  effect running after each ban.
\<close>

definition one_hero :: ctrl where
  "one_hero = poolEffect (loadHeroesData (Some [axe]) all_carry (mounted (zero_draws, 0)))"

definition two_heroes :: ctrl where
  "two_heroes =
     poolEffect (loadHeroesData (Some [axe, bane]) all_carry (mounted (zero_draws, 0)))"

definition axe_banned :: ctrl where
  "axe_banned = banEffect (poolEffect (toggleHeroBan ''1'' one_hero))"

definition three_banned :: ctrl where
  "three_banned =
     poolEffect (toggleHeroBan ''6''
       (poolEffect (toggleHeroBan ''5''
          (poolEffect (toggleHeroBan ''2''
             (poolEffect (loadHeroesData (Some [axe, bane, crystal, drow]) all_carry
                            (mounted (zero_draws, 0)))))))))"

section \<open>The easing curve is a monotone map onto the unit interval\<close>

lemma half_pow5: "0 \<le> x \<Longrightarrow> x < 1/2 \<Longrightarrow> 16 * x ^ 5 < (1/2::real)"
proof -
  assume a: "0 \<le> x" "x < 1/2"
  have "x ^ 5 < (1/2) ^ 5" using a by (intro power_strict_mono) auto
  then show ?thesis by (simp add: power_divide)
qed

lemma unit_pow5: "0 \<le> (x::real) \<Longrightarrow> x \<le> 1 \<Longrightarrow> 0 \<le> x ^ 5 \<and> x ^ 5 \<le> 1"
  by (simp add: power_le_one)

lemma ease_low: "0 < p \<Longrightarrow> p < 1/2 \<Longrightarrow> mapProgressToDistance p = 16 * p ^ 5"
  by (simp add: mapProgressToDistance_def Let_def)

lemma ease_high: "1/2 \<le> p \<Longrightarrow> p < 1 \<Longrightarrow> mapProgressToDistance p = 1 - (- 2 * p + 2) ^ 5 / 2"
  by (simp add: mapProgressToDistance_def Let_def)

lemma ease_range: "0 \<le> mapProgressToDistance p \<and> mapProgressToDistance p \<le> 1"
proof -
  consider "p \<le> 0" | "1 \<le> p" | "0 < p" "p < 1/2" | "1/2 \<le> p" "p < 1" by linarith
  then show ?thesis
  proof cases
    case 3
    then show ?thesis using half_pow5 [of p] by (simp add: ease_low)
  next
    case 4
    then have "0 \<le> (- 2 * p + 2) ^ 5 \<and> (- 2 * p + 2) ^ 5 \<le> 1"
      by (intro unit_pow5) auto
    then show ?thesis using 4 by (simp add: ease_high)
  qed (simp_all add: mapProgressToDistance_def)
qed

lemma ease_mono: assumes "p1 \<le> p2" shows "mapProgressToDistance p1 \<le> mapProgressToDistance p2"
proof -
  consider "p1 \<le> 0" | "1 \<le> p2" | "0 < p1" "p2 < 1/2" | "0 < p1" "p1 < 1/2" "1/2 \<le> p2" "p2 < 1"
    | "1/2 \<le> p1" "p2 < 1" using assms by linarith
  then show ?thesis
  proof cases
    case 1
    then show ?thesis using ease_range [of p2] by (simp add: mapProgressToDistance_def)
  next
    case 2
    then show ?thesis using ease_range [of p1] by (simp add: mapProgressToDistance_def)
  next
    case 3
    then have "p1 ^ 5 \<le> p2 ^ 5" using assms by (intro power_mono) auto
    then show ?thesis using 3 assms by (simp add: ease_low)
  next
    case 4
    have "0 \<le> (- 2 * p2 + 2) ^ 5 \<and> (- 2 * p2 + 2) ^ 5 \<le> 1"
      using 4 by (intro unit_pow5) auto
    then have "1/2 \<le> mapProgressToDistance p2" using 4 by (simp add: ease_high)
    moreover have "mapProgressToDistance p1 < 1/2" using 4 half_pow5 [of p1] by (simp add: ease_low)
    ultimately show ?thesis by linarith
  next
    case 5
    then have "(- 2 * p2 + 2) ^ 5 \<le> (- 2 * p1 + 2) ^ 5" using assms by (intro power_mono) auto
    then show ?thesis using 5 assms by (simp add: ease_high)
  qed
qed

text \<open>
  Claim C4. \<open>mapProgressToDistance\<close> is non-decreasing (on all reals, so on \<open>[0, 1]\<close>),
  maps 0 to 0 and 1 to 1, takes values in \<open>[0, 1]\<close> at every real argument (arguments
  outside \<open>[0, 1]\<close> get the value of the nearer end), equals \<open>16 p\<^sup>5\<close> on \<open>[0, 1/2)\<close> and
  \<open>1 - (-2p + 2)\<^sup>5 / 2\<close> on \<open>[1/2, 1]\<close>.
\<close>

theorem easing_curve:
  "(\<forall>p1 p2. p1 \<le> p2 \<longrightarrow> mapProgressToDistance p1 \<le> mapProgressToDistance p2)
   \<and> mapProgressToDistance 0 = 0
   \<and> mapProgressToDistance 1 = 1
   \<and> (\<forall>p. 0 \<le> mapProgressToDistance p \<and> mapProgressToDistance p \<le> 1)
   \<and> (\<forall>p. p \<le> 0 \<longrightarrow> mapProgressToDistance p = mapProgressToDistance 0)
   \<and> (\<forall>p. 1 \<le> p \<longrightarrow> mapProgressToDistance p = mapProgressToDistance 1)
   \<and> (\<forall>p. 0 \<le> p \<and> p < 1/2 \<longrightarrow> mapProgressToDistance p = 16 * p ^ 5)
   \<and> (\<forall>p. 1/2 \<le> p \<and> p \<le> 1 \<longrightarrow> mapProgressToDistance p = 1 - (- 2 * p + 2) ^ 5 / 2)"
proof -
  have low: "mapProgressToDistance p = 16 * p ^ 5" if "0 \<le> p" "p < 1/2" for p
    using that by (cases "p = 0") (simp_all add: ease_low mapProgressToDistance_def)
  have high: "mapProgressToDistance p = 1 - (- 2 * p + 2) ^ 5 / 2" if "1/2 \<le> p" "p \<le> 1" for p
    using that by (cases "p = 1") (simp_all add: ease_high mapProgressToDistance_def)
  have ends: "mapProgressToDistance 0 = 0" "mapProgressToDistance 1 = 1"
    by (simp_all add: mapProgressToDistance_def)
  have out: "p \<le> 0 \<Longrightarrow> mapProgressToDistance p = 0" "1 \<le> p \<Longrightarrow> mapProgressToDistance p = 1" for p
    by (simp_all add: mapProgressToDistance_def)
  show ?thesis using ease_mono ease_range low high ends out by simp
qed

theorem easing_curve_witness:
  "mapProgressToDistance (1/4) \<le> mapProgressToDistance (3/4)
   \<and> mapProgressToDistance (1/4) = 1/64 \<and> mapProgressToDistance (3/4) = 63/64
   \<and> mapProgressToDistance (-2) = 0 \<and> mapProgressToDistance 7 = 1"
  using easing_curve by (simp add: power_divide)

section \<open>The remainder arithmetic of the offset\<close>

lemma floor_shift: "0 < L \<Longrightarrow> \<lfloor>(a + L) / L\<rfloor> = \<lfloor>a / L\<rfloor> + (1::int)" for a L :: real
  by (simp add: add_divide_distrib)

lemma frac_part_bounds:
  fixes a L :: real
  assumes "0 < L"
  shows "0 \<le> a - L * of_int \<lfloor>a / L\<rfloor>" and "a - L * of_int \<lfloor>a / L\<rfloor> < L"
proof -
  have "of_int \<lfloor>a / L\<rfloor> \<le> a / L" by simp
  then have "L * of_int \<lfloor>a / L\<rfloor> \<le> L * (a / L)" using assms by (intro mult_left_mono) auto
  then have "L * of_int \<lfloor>a / L\<rfloor> \<le> a" using assms by simp
  then show "0 \<le> a - L * of_int \<lfloor>a / L\<rfloor>" by simp
  have "a / L < of_int \<lfloor>a / L\<rfloor> + 1" by linarith
  then have "L * (a / L) < L * (of_int \<lfloor>a / L\<rfloor> + 1)" using assms by (intro mult_strict_left_mono) auto
  then have "a < (of_int \<lfloor>a / L\<rfloor> + 1) * L" using assms by (simp add: mult.commute)
  then show "a - L * of_int \<lfloor>a / L\<rfloor> < L" by (simp add: algebra_simps)
qed

lemma js_trunc_nonneg: "0 \<le> y \<Longrightarrow> js_trunc y = \<lfloor>y\<rfloor>"
  by (simp add: js_trunc_def)

lemma js_mod_small:
  fixes x L :: real
  assumes "0 < L" "0 \<le> x" "x < L"
  shows "js_mod x L = Some x"
proof -
  have "0 \<le> x / L" "x / L < 1" using assms by simp_all
  then have "\<lfloor>x / L\<rfloor> = 0" by linarith
  then have "js_trunc (x / L) = 0" using \<open>0 \<le> x / L\<close> by (simp only: js_trunc_nonneg)
  then show ?thesis using assms by (simp add: js_mod_def)
qed

lemma js_mod_next:
  fixes x L :: real
  assumes "0 < L" "0 \<le> x" "x < L"
  shows "js_mod (x + L) L = Some x"
proof -
  have "1 \<le> (x + L) / L" "(x + L) / L < 2" using assms by (simp_all add: add_divide_distrib)
  then have "\<lfloor>(x + L) / L\<rfloor> = 1" by linarith
  moreover have "0 \<le> (x + L) / L" using \<open>1 \<le> (x + L) / L\<close> by linarith
  ultimately have "js_trunc ((x + L) / L) = 1" by (simp only: js_trunc_nonneg)
  then show ?thesis using assms by (simp add: js_mod_def)
qed

lemma offsetWithinLoop_eq:
  fixes a L :: real
  assumes L: "0 < L"
  shows "offsetWithinLoop L a = Some (a - L * of_int \<lfloor>a / L\<rfloor>)"
proof -
  let ?f = "a - L * of_int \<lfloor>a / L\<rfloor>"
  note fb = frac_part_bounds [OF L, of a]
  show ?thesis
  proof (cases "a < 0 \<and> ?f \<noteq> 0")
    case False
    have "js_trunc (a / L) = \<lfloor>a / L\<rfloor>"
    proof (cases "a < 0")
      case True
      with False have "?f = 0" by simp
      then have "a / L = of_int \<lfloor>a / L\<rfloor>" using L by (simp add: field_simps)
      then have "\<lceil>a / L\<rceil> = \<lfloor>a / L\<rfloor>" by (metis ceiling_of_int)
      then show ?thesis by (simp add: js_trunc_def)
    next
      case False
      then have "\<not> a / L < 0" using L by (simp add: divide_less_0_iff)
      then show ?thesis by (simp add: js_trunc_def)
    qed
    then have "js_mod a L = Some ?f" using L by (simp add: js_mod_def)
    then show ?thesis using js_mod_next [OF L fb] by (simp add: offsetWithinLoop_def)
  next
    case True
    then have neg: "a / L < 0" using L by (simp add: divide_less_0_iff)
    have "a / L \<noteq> of_int \<lfloor>a / L\<rfloor>" using True L by (auto simp: field_simps)
    then have "\<lceil>a / L\<rceil> = \<lfloor>a / L\<rfloor> + 1" by (metis ceiling_altdef of_int_floor_cancel)
    then have "js_mod a L = Some (?f - L)" using L neg by (simp add: js_mod_def js_trunc_def algebra_simps)
    moreover have "js_mod (?f - L + L) L = Some ?f" using js_mod_small [OF L fb] by simp
    ultimately show ?thesis by (simp add: offsetWithinLoop_def)
  qed
qed

lemma offsetWithinLoop_period:
  fixes a L :: real
  assumes L: "0 < L"
  shows "offsetWithinLoop L (a + of_int k * L) = offsetWithinLoop L a"
proof -
  have "(a + of_int k * L) / L = a / L + of_int k" using L by (simp add: add_divide_distrib)
  then have "\<lfloor>(a + of_int k * L) / L\<rfloor> = \<lfloor>a / L\<rfloor> + k" by simp
  then show ?thesis by (simp add: offsetWithinLoop_eq [OF L] algebra_simps)
qed

lemma visualOffset_pos:
  assumes "0 < w" "0 < n"
  shows "visualOffset mri w n rawOffset =
     Some (rawOffset - real n * w * of_int \<lfloor>rawOffset / (real n * w)\<rfloor>
           - of_int mri * (real n * w))"
proof -
  have L: "0 < real n * w" using assms by simp
  show ?thesis using assms by (simp add: visualOffset_def Let_def offsetWithinLoop_eq [OF L])
qed

lemma applyVisualOffset_idem:
  "applyVisualOffset rawOffset (applyVisualOffset rawOffset s) = applyVisualOffset rawOffset s"
  by (simp add: applyVisualOffset_def Let_def split: option.splits)

text \<open>
  Claim C8. When the slot width is zero or the base list is empty, the raw offset itself
  is what is shown: the result is the number \<open>rawOffset\<close>, not the \<open>NaN\<close> of a remainder by
  zero, and \<open>applyVisualOffset\<close> stores it and writes it to the strip when the strip is
  mounted.
\<close>

theorem normalizer_fallback:
  assumes "w = 0 \<or> n = 0"
  shows "visualOffset mri w n rawOffset = Some rawOffset
     \<and> (heroSlotWidthRef s = w \<and> length (baseHeroesRef s) = n \<longrightarrow>
          applyVisualOffset rawOffset s =
            s\<lparr>virtualOffsetRef := rawOffset,
              rouletteRef := (case rouletteRef s of None \<Rightarrow> None
                              | Some _ \<Rightarrow> Some (Translate3d (Some rawOffset)))\<rparr>)"
  using assms by (auto simp: visualOffset_def applyVisualOffset_def Let_def split: option.splits)

theorem normalizer_fallback_witness:
  "visualOffset 3 168 0 (- 504) = Some (- 504)
   \<and> virtualOffsetRef (applyVisualOffset (- 504) (mounted (\<lambda>_. 0, 0))) = - 504
   \<and> rouletteRef (applyVisualOffset (- 504) (mounted (\<lambda>_. 0, 0))) = Some (Translate3d (Some (- 504)))"
  using normalizer_fallback [of 168 0 3 "- 504" "mounted (\<lambda>_. 0, 0)"]
  by (simp add: mounted_def DEFAULT_HERO_SLOT_WIDTH_def)

text \<open>
  Claim C10. For a positive slot width and a non-empty base list the visual offset lies
  in \<open>[-middleRepeatIndex * loopWidth, -(middleRepeatIndex - 1) * loopWidth)\<close> for every raw
  offset, and so does the number that \<open>applyVisualOffset\<close> writes to a mounted strip.
\<close>

theorem normalizer_middle:
  assumes "0 < w" and "0 < n"
  shows "(\<exists>v. visualOffset mri w n rawOffset = Some v
            \<and> - (of_int mri * (real n * w)) \<le> v
            \<and> v < - ((of_int mri - 1) * (real n * w)))
     \<and> (heroSlotWidthRef s = w \<and> length (baseHeroesRef s) = n \<and> rouletteRef s \<noteq> None \<longrightarrow>
          (\<exists>v. rouletteRef (applyVisualOffset rawOffset s) = Some (Translate3d (Some v))
            \<and> - (of_int middleRepeatIndex * (real n * w)) \<le> v
            \<and> v < - ((of_int middleRepeatIndex - 1) * (real n * w))))"
proof -
  have L: "0 < real n * w" using assms by simp
  have range: "\<exists>v. visualOffset m w n rawOffset = Some v
            \<and> - (of_int m * (real n * w)) \<le> v
            \<and> v < - ((of_int m - 1) * (real n * w))" for m
  proof -
    define v where "v = rawOffset - real n * w * of_int \<lfloor>rawOffset / (real n * w)\<rfloor>
             - of_int m * (real n * w)"
    have "visualOffset m w n rawOffset = Some v"
      by (simp only: visualOffset_pos [OF assms] v_def)
    moreover have "- (of_int m * (real n * w)) \<le> v"
      using frac_part_bounds(1) [OF L, of rawOffset] by (simp add: v_def)
    moreover have "v < - ((of_int m - 1) * (real n * w))"
      using frac_part_bounds(2) [OF L, of rawOffset] by (simp add: v_def algebra_simps)
    ultimately show ?thesis by blast
  qed
  have "rouletteRef (applyVisualOffset rawOffset s)
        = Some (Translate3d (visualOffset middleRepeatIndex w n rawOffset))"
    if "heroSlotWidthRef s = w" "length (baseHeroesRef s) = n" "rouletteRef s \<noteq> None"
    using that by (auto simp: applyVisualOffset_def Let_def split: option.splits)
  then show ?thesis using range [of mri] range [of middleRepeatIndex] by auto
qed

theorem normalizer_middle_witness:
  "(0::real) < 168 \<and> (0::nat) < 2
   \<and> visualOffset 3 168 2 (- 1848) = Some (- 840)
   \<and> - (3 * (2 * 168)) \<le> (- 840 :: real) \<and> (- 840 :: real) < - ((3 - 1) * (2 * 168))"
proof -
  have v: "visualOffset 3 168 2 (- 1848) = Some (- 840)" by code_simp
  show ?thesis using normalizer_middle [of 168 2 3 "- 1848"] v by simp
qed

section \<open>Shuffles, draws and the fields that measuring and offsetting leave alone\<close>

lemma swap_mset: "mset (swap xs i j) = mset xs"
  by (simp add: swap_def mset_swap)

lemma shuffleLoop_mset: "mset (fst (shuffleLoop k xs g)) = mset xs"
  by (induction k arbitrary: xs g) (simp_all add: swap_mset Let_def split: prod.splits)

lemma shuffleLoop_draws: "fst (snd (shuffleLoop k xs g)) = fst g"
  by (induction k arbitrary: xs g) (simp_all add: Math_random_def Let_def split: prod.splits)

lemma shuffleList_mset: "shuffleList xs g = (ys, g') \<Longrightarrow> mset ys = mset xs"
  using shuffleLoop_mset [of "length xs - 1" xs g] by (simp add: shuffleList_def)

lemma shuffleList_draws: "shuffleList xs g = (ys, g') \<Longrightarrow> fst g' = fst g"
  using shuffleLoop_draws [of "length xs - 1" xs g] by (simp add: shuffleList_def)

lemma unit_draws_cong: "fst g' = fst g \<Longrightarrow> unit_draws g' = unit_draws g"
  by (simp add: unit_draws_def)

lemma floor_draw:
  fixes r :: real
  assumes "0 \<le> r" "r < 1" "0 < k"
  shows "0 \<le> \<lfloor>r * k\<rfloor>" and "of_int \<lfloor>r * k\<rfloor> < k"
proof -
  have "0 \<le> r * k" using assms by simp
  then show "0 \<le> \<lfloor>r * k\<rfloor>" by simp
  have "r * k < 1 * k" using assms by (intro mult_strict_right_mono) auto
  moreover have "of_int \<lfloor>r * k\<rfloor> \<le> r * k" by simp
  ultimately show "of_int \<lfloor>r * k\<rfloor> < k" by linarith
qed

lemma floor_draw_nat:
  fixes r :: real
  assumes "0 \<le> r" "r < 1" "0 < n"
  shows "0 \<le> \<lfloor>r * real n\<rfloor> \<and> \<lfloor>r * real n\<rfloor> < int n"
proof -
  have "of_int \<lfloor>r * real n\<rfloor> < real n" using assms by (intro floor_draw) auto
  then have "\<lfloor>r * real n\<rfloor> < int n" by linarith
  then show ?thesis using floor_draw(1) [of r "real n"] assms by simp
qed

lemma drawRandomIndex_draws: "fst (snd (drawRandomIndex n g)) = fst g"
  by (simp add: drawRandomIndex_def Math_random_def Let_def)

lemma drawRandomIndex_range:
  assumes "unit_draws g" "0 < n"
  shows "0 \<le> fst (drawRandomIndex n g) \<and> fst (drawRandomIndex n g) < int n"
proof -
  have d: "0 \<le> fst g i \<and> fst g i < 1" for i using assms(1) by (simp add: unit_draws_def)
  have a: "0 \<le> \<lfloor>fst g (snd g) * real n\<rfloor> \<and> \<lfloor>fst g (snd g) * real n\<rfloor> < int n"
    using d assms(2) by (intro floor_draw_nat) auto
  have b: "0 \<le> \<lfloor>fst g (Suc (Suc (snd g))) * real (n - 1)\<rfloor>
           \<and> \<lfloor>fst g (Suc (Suc (snd g))) * real (n - 1)\<rfloor> < int (n - 1)" if "1 < n"
    using d that by (intro floor_draw_nat) auto
  show ?thesis
  proof (cases "1 < n")
    case True
    then have "real n - 1 = real (n - 1)" by simp
    then show ?thesis using a b [OF True] True
      by (auto simp: drawRandomIndex_def Math_random_def Let_def)
  next
    case False
    then show ?thesis using a by (simp add: drawRandomIndex_def Math_random_def Let_def)
  qed
qed

lemma drawRandomIndex_reroll:
  assumes "unit_draws g" "1 < n" "\<lfloor>fst g (snd g) * real n\<rfloor> = 0" "fst g (Suc (snd g)) < 0.35"
  shows "1 \<le> fst (drawRandomIndex n g) \<and> fst (drawRandomIndex n g) < int n"
proof -
  have d: "0 \<le> fst g i \<and> fst g i < 1" for i using assms(1) by (simp add: unit_draws_def)
  have b: "0 \<le> \<lfloor>fst g (Suc (Suc (snd g))) * real (n - 1)\<rfloor>
           \<and> \<lfloor>fst g (Suc (Suc (snd g))) * real (n - 1)\<rfloor> < int (n - 1)"
    using d assms(2) by (intro floor_draw_nat) auto
  have "real n - 1 = real (n - 1)" using assms(2) by simp
  then show ?thesis using b assms
    by (auto simp: drawRandomIndex_def Math_random_def Let_def)
qed

lemma drawRandomIndex_single: "unit_draws g \<Longrightarrow> fst (drawRandomIndex 1 g) = 0"
  using drawRandomIndex_range [of g 1] by simp

lemma measure_fields:
  "isSpinningRef (measureHeroSlotWidth d s) = isSpinningRef s"
  "isSpinning (measureHeroSlotWidth d s) = isSpinning s"
  "selectedHero (measureHeroSlotWidth d s) = selectedHero s"
  "animationFrameRef (measureHeroSlotWidth d s) = animationFrameRef s"
  "frameQueue (measureHeroSlotWidth d s) = frameQueue s"
  "nextFrameId (measureHeroSlotWidth d s) = nextFrameId s"
  "random (measureHeroSlotWidth d s) = random s"
  "tickSounds (measureHeroSlotWidth d s) = tickSounds s"
  "winSounds (measureHeroSlotWidth d s) = winSounds s"
  "baseHeroesRef (measureHeroSlotWidth d s) = baseHeroesRef s"
  "rouletteRef (measureHeroSlotWidth d s) = rouletteRef s"
  "virtualOffsetRef (measureHeroSlotWidth d s) = virtualOffsetRef s"
  by (simp_all add: measureHeroSlotWidth_def Let_def split: option.splits)

lemma measure_positive:
  "0 < heroSlotWidthRef s \<Longrightarrow> 0 < heroSlotWidthRef (measureHeroSlotWidth d s)"
  by (simp add: measureHeroSlotWidth_def Let_def split: option.splits)

lemma applyVisualOffset_fields:
  "isSpinningRef (applyVisualOffset x s) = isSpinningRef s"
  "isSpinning (applyVisualOffset x s) = isSpinning s"
  "selectedHero (applyVisualOffset x s) = selectedHero s"
  "animationFrameRef (applyVisualOffset x s) = animationFrameRef s"
  "frameQueue (applyVisualOffset x s) = frameQueue s"
  "nextFrameId (applyVisualOffset x s) = nextFrameId s"
  "random (applyVisualOffset x s) = random s"
  "tickSounds (applyVisualOffset x s) = tickSounds s"
  "winSounds (applyVisualOffset x s) = winSounds s"
  "baseHeroesRef (applyVisualOffset x s) = baseHeroesRef s"
  "baseHeroesState (applyVisualOffset x s) = baseHeroesState s"
  "heroSlotWidthRef (applyVisualOffset x s) = heroSlotWidthRef s"
  "heroSlotWidth (applyVisualOffset x s) = heroSlotWidth s"
  "virtualOffsetRef (applyVisualOffset x s) = x"
  "rouletteRef (applyVisualOffset x s) =
     (case rouletteRef s of None \<Rightarrow> None
      | Some _ \<Rightarrow> Some (Translate3d (visualOffset middleRepeatIndex (heroSlotWidthRef s)
                                        (length (baseHeroesRef s)) x)))"
  by (simp_all add: applyVisualOffset_def Let_def split: option.splits)

section \<open>What \<open>spinRoulette\<close> does: nothing while spinning, the early exit, a started spin\<close>

lemma cancel_fields:
  "isSpinningRef (cancelAnimationFrame h s) = isSpinningRef s"
  "nextFrameId (cancelAnimationFrame h s) = nextFrameId s"
  "random (cancelAnimationFrame h s) = random s"
  "tickSounds (cancelAnimationFrame h s) = tickSounds s"
  "winSounds (cancelAnimationFrame h s) = winSounds s"
  "heroSlotWidthRef (cancelAnimationFrame h s) = heroSlotWidthRef s"
  "rouletteRef (cancelAnimationFrame h s) = rouletteRef s"
  "frameQueue (cancelAnimationFrame h s) = filter (\<lambda>entry. fst entry \<noteq> h) (frameQueue s)"
  by (simp_all add: cancelAnimationFrame_def)

lemma spin_busy: "isSpinningRef s \<Longrightarrow> spinRoulette d active heroes s = s"
  by (simp add: spinRoulette_def)

lemma spin_empty:
  assumes "\<not> isSpinningRef s" "active = []" "heroes = []"
  shows "\<not> isSpinningRef (spinRoulette d active heroes s)"
    and "\<not> isSpinning (spinRoulette d active heroes s)"
    and "selectedHero (spinRoulette d active heroes s) = None"
    and "animationFrameRef (spinRoulette d active heroes s)
         = (case animationFrameRef s of None \<Rightarrow> None | Some h \<Rightarrow> if h = 0 then Some 0 else None)"
    and "frameQueue (spinRoulette d active heroes s)
         = filter (\<lambda>entry. Some (fst entry) \<noteq> animationFrameRef s \<or> fst entry = 0) (frameQueue s)"
    and "nextFrameId (spinRoulette d active heroes s) = nextFrameId s"
    and "baseHeroesRef (spinRoulette d active heroes s) = []"
    and "rouletteRef (spinRoulette d active heroes s) = rouletteRef s"
  using assms
  by (auto simp: spinRoulette_def shuffleList_def Let_def measure_fields cancel_fields
      split: option.splits intro: filter_cong)

lemma spin_started:
  assumes idle: "\<not> isSpinningRef s0"
    and pool: "pool = (if length active > 0 then active else heroes)" "pool \<noteq> []"
  shows "\<exists>env. 
      frameQueue (spinRoulette d active heroes s0)
        = filter (\<lambda>entry. Some (fst entry) \<noteq> animationFrameRef s0 \<or> fst entry = 0) (frameQueue s0)
          @ [(nextFrameId s0, env)]
    \<and> animationFrameRef (spinRoulette d active heroes s0) = Some (nextFrameId s0)
    \<and> nextFrameId (spinRoulette d active heroes s0) = Suc (nextFrameId s0)
    \<and> isSpinningRef (spinRoulette d active heroes s0)
    \<and> isSpinning (spinRoulette d active heroes s0)
    \<and> selectedHero (spinRoulette d active heroes s0) = None
    \<and> tickSounds (spinRoulette d active heroes s0) = tickSounds s0
    \<and> winSounds (spinRoulette d active heroes s0) = winSounds s0
    \<and> baseHeroesRef (spinRoulette d active heroes s0) = shuffledHeroes env
    \<and> heroSlotWidthRef (spinRoulette d active heroes s0) = slotWidth env
    \<and> virtualOffsetRef (spinRoulette d active heroes s0) = startOffset env
    \<and> fst (random (spinRoulette d active heroes s0)) = fst (random s0)
    \<and> shuffledHeroes env = fst (shuffleList pool (random s0))
    \<and> availableCount env = length pool
    \<and> randomIndex env = fst (drawRandomIndex (length pool) (snd (shuffleList pool (random s0))))
    \<and> randomHero env = js_index (shuffledHeroes env) (randomIndex env)
    \<and> extraLoops env
        = 2 + \<lfloor>fst (Math_random (snd (drawRandomIndex (length pool) (snd (shuffleList pool (random s0)))))) * 4\<rfloor>
    \<and> slotWidth env = heroSlotWidthRef (measureHeroSlotWidth d s0)
    \<and> startOffset env = - (of_int middleRepeatIndex * real (length pool) * slotWidth env)
    \<and> targetIndex env = middleRepeatIndex * int (length pool) + extraLoops env * int (length pool) + randomIndex env
    \<and> finalOffset env = - (of_int (targetIndex env) * slotWidth env)
    \<and> totalDistance env = finalOffset env - startOffset env
    \<and> spinDuration env = BASE_SPIN_DURATION + of_int (extraLoops env) * SPIN_DURATION_PER_LOOP
    \<and> animationStart env = 0
    \<and> lastHeroIndex env = Some (- 1)
    \<and> (rouletteRef (spinRoulette d active heroes s0) = None) = (rouletteRef s0 = None)"
proof -
  obtain shuffled g where sh: "shuffleList pool (random s0) = (shuffled, g)"
    by (cases "shuffleList pool (random s0)")
  obtain index g1 where dr: "drawRandomIndex (length pool) g = (index, g1)"
    by (cases "drawRandomIndex (length pool) g")
  obtain r g2 where mr: "Math_random g1 = (r, g2)"
    by (cases "Math_random g1")
  have len: "length shuffled = length pool" using shuffleList_mset [OF sh] by (rule mset_eq_length)
  then have ne: "shuffled \<noteq> []" using pool(2) by auto
  have w: "heroSlotWidthRef (measureHeroSlotWidth d (s\<lparr>isSpinningRef := True, isSpinning := True, selectedHero := None\<rparr>))
         = heroSlotWidthRef (measureHeroSlotWidth d s)" 
    if "rouletteRef s = rouletteRef s0" "heroSlotWidthRef s = heroSlotWidthRef s0" for s
    using that by (simp add: measureHeroSlotWidth_def Let_def split: option.splits)
  have g1: "fst g2 = fst (random s0)"
    using shuffleList_draws [OF sh] drawRandomIndex_draws [of "length pool" g] dr mr
    by (simp add: Math_random_def) auto
  have w2: "heroSlotWidthRef (measureHeroSlotWidth d
                ((cancelAnimationFrame a s0)\<lparr>animationFrameRef := None\<rparr>))
         = heroSlotWidthRef (measureHeroSlotWidth d s0)" for a
    by (simp add: measureHeroSlotWidth_def Let_def cancelAnimationFrame_def split: option.splits)
  have av: "(if active \<noteq> [] then active else heroes) = pool"
    "(if active = [] then heroes else active) = pool"
    using pool(1) by auto
  show ?thesis
    using idle ne len g1
    by (cases "animationFrameRef s0")
       (auto simp: spinRoulette_def Let_def av sh dr mr measure_fields cancel_fields
              applyVisualOffset_fields requestAnimationFrame_def w w2
           split: option.splits intro: filter_cong)
qed

section \<open>One frame\<close>

lemma playTick_fields:
  "frameQueue (playTickSound r s) = frameQueue s"
  "nextFrameId (playTickSound r s) = nextFrameId s"
  "isSpinningRef (playTickSound r s) = isSpinningRef s"
  "isSpinning (playTickSound r s) = isSpinning s"
  "animationFrameRef (playTickSound r s) = animationFrameRef s"
  "selectedHero (playTickSound r s) = selectedHero s"
  "rouletteRef (playTickSound r s) = rouletteRef s"
  "heroSlotWidthRef (playTickSound r s) = heroSlotWidthRef s"
  "baseHeroesRef (playTickSound r s) = baseHeroesRef s"
  "virtualOffsetRef (playTickSound r s) = virtualOffsetRef s"
  "winSounds (playTickSound r s) = winSounds s"
  "tickSounds (playTickSound r s) = tickSounds s @ [r]"
  by (simp_all add: playTickSound_def)

lemma step_ticks:
  "tickSounds (step env t s) = tickSounds s
   \<or> tickSounds (step env t s) = tickSounds s @ [max 0.05 (1 - frameProgress env t)]"
  by (simp add: step_def Let_def requestAnimationFrame_def playWinSound_def
      applyVisualOffset_fields playTick_fields split: prod.splits)

lemma step_running:
  assumes "frameProgress env t < 1"
  shows "\<exists>env'. frameQueue (step env t s) = frameQueue s @ [(nextFrameId s, env')]
           \<and> animationStart env' = frameStart env t
           \<and> spinDuration env' = spinDuration env
           \<and> finalOffset env' = finalOffset env
           \<and> randomHero env' = randomHero env
           \<and> slotWidth env' = slotWidth env
           \<and> shuffledHeroes env' = shuffledHeroes env
           \<and> availableCount env' = availableCount env
           \<and> randomIndex env' = randomIndex env
           \<and> extraLoops env' = extraLoops env"
    and "animationFrameRef (step env t s) = Some (nextFrameId s)"
    and "nextFrameId (step env t s) = Suc (nextFrameId s)"
    and "isSpinningRef (step env t s) = isSpinningRef s"
    and "selectedHero (step env t s) = selectedHero s"
    and "winSounds (step env t s) = winSounds s"
  using assms
  by (simp_all add: step_def Let_def requestAnimationFrame_def
      applyVisualOffset_fields playTick_fields split: prod.splits)

lemma step_done:
  assumes "\<not> frameProgress env t < 1"
  shows "frameQueue (step env t s) = frameQueue s"
    and "animationFrameRef (step env t s) = None"
    and "nextFrameId (step env t s) = nextFrameId s"
    and "\<not> isSpinningRef (step env t s)"
    and "\<not> isSpinning (step env t s)"
    and "selectedHero (step env t s) = randomHero env"
    and "virtualOffsetRef (step env t s) = finalOffset env"
    and "winSounds (step env t s) = Suc (winSounds s)"
    and "rouletteRef (step env t s) =
          (case rouletteRef s of None \<Rightarrow> None
           | Some _ \<Rightarrow> Some (Translate3d (visualOffset middleRepeatIndex (heroSlotWidthRef s)
                                             (length (baseHeroesRef s)) (finalOffset env))))"
  using assms
  by (simp_all add: step_def Let_def playWinSound_def
      applyVisualOffset_fields playTick_fields split: prod.splits option.splits)

lemma frame_idle: "frameQueue s = [] \<Longrightarrow> animationFrame t s = s"
  by (simp add: animationFrame_def)

lemma frame_single: "frameQueue s = [(h, env)] \<Longrightarrow> animationFrame t s = step env t (s\<lparr>frameQueue := []\<rparr>)"
  by (simp add: animationFrame_def)

section \<open>The states the controller can reach\<close>

lemma filter_ops_frames:
  "isSpinningRef (loadHeroesData loaded roles s) = isSpinningRef s"
  "animationFrameRef (loadHeroesData loaded roles s) = animationFrameRef s"
  "frameQueue (loadHeroesData loaded roles s) = frameQueue s"
  "nextFrameId (loadHeroesData loaded roles s) = nextFrameId s"
  "heroSlotWidthRef (loadHeroesData loaded roles s) = heroSlotWidthRef s"
  "isSpinningRef (toggleRole r s) = isSpinningRef s"
  "animationFrameRef (toggleRole r s) = animationFrameRef s"
  "frameQueue (toggleRole r s) = frameQueue s"
  "nextFrameId (toggleRole r s) = nextFrameId s"
  "heroSlotWidthRef (toggleRole r s) = heroSlotWidthRef s"
  "isSpinningRef (clearRoles s) = isSpinningRef s"
  "animationFrameRef (clearRoles s) = animationFrameRef s"
  "frameQueue (clearRoles s) = frameQueue s"
  "nextFrameId (clearRoles s) = nextFrameId s"
  "heroSlotWidthRef (clearRoles s) = heroSlotWidthRef s"
  "isSpinningRef (toggleHeroBan i s) = isSpinningRef s"
  "animationFrameRef (toggleHeroBan i s) = animationFrameRef s"
  "frameQueue (toggleHeroBan i s) = frameQueue s"
  "nextFrameId (toggleHeroBan i s) = nextFrameId s"
  "heroSlotWidthRef (toggleHeroBan i s) = heroSlotWidthRef s"
  "isSpinningRef (clearHeroBans s) = isSpinningRef s"
  "animationFrameRef (clearHeroBans s) = animationFrameRef s"
  "frameQueue (clearHeroBans s) = frameQueue s"
  "nextFrameId (clearHeroBans s) = nextFrameId s"
  "heroSlotWidthRef (clearHeroBans s) = heroSlotWidthRef s"
  "isSpinningRef (banEffect s) = isSpinningRef s"
  "animationFrameRef (banEffect s) = animationFrameRef s"
  "frameQueue (banEffect s) = frameQueue s"
  "nextFrameId (banEffect s) = nextFrameId s"
  "heroSlotWidthRef (banEffect s) = heroSlotWidthRef s"
  by (simp_all add: loadHeroesData_def toggleRole_def clearRoles_def toggleHeroBan_def
      clearHeroBans_def banEffect_def split: option.splits)

lemma reset_fields:
  "isSpinningRef (resetRoulette a h s) = isSpinningRef s"
  "animationFrameRef (resetRoulette a h s) = animationFrameRef s"
  "frameQueue (resetRoulette a h s) = frameQueue s"
  "nextFrameId (resetRoulette a h s) = nextFrameId s"
  "selectedHero (resetRoulette a h s) = None"
  by (simp_all add: resetRoulette_def Let_def applyVisualOffset_fields split: prod.splits)

lemma rebuild_fields:
  "isSpinningRef (rebuildPool a h s) = isSpinningRef s"
  "animationFrameRef (rebuildPool a h s) = animationFrameRef s"
  "frameQueue (rebuildPool a h s) = frameQueue s"
  "nextFrameId (rebuildPool a h s) = nextFrameId s"
  by (simp_all add: rebuildPool_def Let_def split: prod.splits)

lemma spin_pending:
  assumes "\<not> isSpinningRef s" "frameQueue s = []" "animationFrameRef s = None"
  shows "(isSpinningRef (spinRoulette d a h s) \<longrightarrow>
            (\<exists>env. frameQueue (spinRoulette d a h s) = [(nextFrameId s, env)])
            \<and> animationFrameRef (spinRoulette d a h s) = Some (nextFrameId s)
            \<and> nextFrameId (spinRoulette d a h s) = Suc (nextFrameId s))
       \<and> (\<not> isSpinningRef (spinRoulette d a h s) \<longrightarrow>
            frameQueue (spinRoulette d a h s) = []
            \<and> animationFrameRef (spinRoulette d a h s) = None
            \<and> nextFrameId (spinRoulette d a h s) = nextFrameId s)"
proof (cases "(if length a > 0 then a else h) = []")
  case True
  then have "a = []" "h = []" by (auto split: if_splits)
  then show ?thesis using assms spin_empty [of s a h d] by simp
next
  case False
  obtain env where
    "frameQueue (spinRoulette d a h s)
        = filter (\<lambda>entry. Some (fst entry) \<noteq> animationFrameRef s \<or> fst entry = 0) (frameQueue s)
          @ [(nextFrameId s, env)]"
    "animationFrameRef (spinRoulette d a h s) = Some (nextFrameId s)"
    "nextFrameId (spinRoulette d a h s) = Suc (nextFrameId s)"
    "isSpinningRef (spinRoulette d a h s)"
    using spin_started [OF assms(1) refl False, of d] by blast
  then show ?thesis using assms by simp
qed

lemma reachable_single:
  assumes "reachable s"
  shows "0 < nextFrameId s
     \<and> (isSpinningRef s \<longrightarrow>
          (\<exists>h env. frameQueue s = [(h, env)] \<and> animationFrameRef s = Some h
                    \<and> 0 < h \<and> h < nextFrameId s))
     \<and> (\<not> isSpinningRef s \<longrightarrow> frameQueue s = [] \<and> animationFrameRef s = None)"
  using assms
proof (induction rule: reachable.induct)
  case (r_mounted g)
  show ?case by (simp add: mounted_def)
next
  case (r_spin s firstHero active heroes)
  show ?case
  proof (cases "isSpinningRef s")
    case True
    then show ?thesis using r_spin.IH by (simp add: spin_busy)
  next
    case False
    then have "frameQueue s = []" "animationFrameRef s = None" "0 < nextFrameId s"
      using r_spin.IH by auto
    then show ?thesis using spin_pending [OF False, of firstHero active heroes] by auto
  qed
next
  case (r_frame s timestamp)
  show ?case
  proof (cases "isSpinningRef s")
    case False
    then show ?thesis using r_frame.IH by (simp add: frame_idle)
  next
    case True
    then obtain h env where q: "frameQueue s = [(h, env)]" and n: "0 < nextFrameId s"
      using r_frame.IH by auto
    let ?cleared = "s\<lparr>frameQueue := []\<rparr>"
    show ?thesis
    proof (cases "frameProgress env timestamp < 1")
      case run: True
      show ?thesis
        using step_running [OF run, of ?cleared] True n by (auto simp: frame_single [OF q])
    next
      case fin: False
      show ?thesis
        using step_done [OF fin, of ?cleared] n by (simp add: frame_single [OF q])
    qed
  qed
next
  case (r_reset s active heroes)
  then show ?case by (simp add: reset_fields)
next
  case (r_rebuild s active heroes)
  then show ?case by (simp add: rebuild_fields)
next
  case (r_measure s firstHero)
  then show ?case by (simp add: measure_fields)
next
  case (r_offset s rawOffset)
  then show ?case by (simp add: applyVisualOffset_fields)
qed (simp_all add: filter_ops_frames)

section \<open>Runs of frames\<close>

lemma step_refs:
  "heroSlotWidthRef (step env t s) = heroSlotWidthRef s"
  "baseHeroesRef (step env t s) = baseHeroesRef s"
  "(rouletteRef (step env t s) = None) = (rouletteRef s = None)"
  by (simp_all add: step_def Let_def requestAnimationFrame_def playWinSound_def
      applyVisualOffset_fields playTick_fields split: prod.splits option.splits)

lemma frames_idle: "frameQueue s = [] \<Longrightarrow> fold animationFrame ts s = s"
  by (induction ts) (simp_all add: frame_idle)

lemma frames_winner:
  assumes "frameQueue s = [(h, env)]" and "isSpinningRef s"
    and "\<not> isSpinningRef (fold animationFrame ts s)"
  shows "selectedHero (fold animationFrame ts s) = randomHero env
     \<and> virtualOffsetRef (fold animationFrame ts s) = finalOffset env
     \<and> frameQueue (fold animationFrame ts s) = []
     \<and> animationFrameRef (fold animationFrame ts s) = None
     \<and> \<not> isSpinning (fold animationFrame ts s)
     \<and> rouletteRef (fold animationFrame ts s) =
          (case rouletteRef s of None \<Rightarrow> None
           | Some _ \<Rightarrow> Some (Translate3d (visualOffset middleRepeatIndex (heroSlotWidthRef s)
                                             (length (baseHeroesRef s)) (finalOffset env))))"
  using assms
proof (induction ts arbitrary: s h env)
  case Nil
  then show ?case by simp
next
  case (Cons t ts)
  let ?cleared = "s\<lparr>frameQueue := []\<rparr>"
  let ?next = "step env t ?cleared"
  have fr: "animationFrame t s = ?next" by (rule frame_single [OF Cons.prems(1)])
  show ?case
  proof (cases "frameProgress env t < 1")
    case True
    obtain env' where q: "frameQueue ?next = [(nextFrameId ?cleared, env')]"
      and e: "finalOffset env' = finalOffset env" "randomHero env' = randomHero env"
      using step_running(1) [OF True, of ?cleared] by auto
    have sp: "isSpinningRef ?next" using step_running(4) [OF True, of ?cleared] Cons.prems(2) by simp
    have fin: "\<not> isSpinningRef (fold animationFrame ts ?next)" using Cons.prems(3) fr by simp
    have refs: "heroSlotWidthRef ?next = heroSlotWidthRef s" "baseHeroesRef ?next = baseHeroesRef s"
      "(rouletteRef ?next = None) = (rouletteRef s = None)"
      by (simp_all add: step_refs)
    show ?thesis using Cons.IH [OF q sp fin] e refs fr
      by (auto split: option.splits)
  next
    case False
    have "frameQueue ?next = []" using step_done(1) [OF False, of ?cleared] by simp
    then have "fold animationFrame ts ?next = ?next" by (rule frames_idle)
    then show ?thesis using step_done [OF False, of ?cleared] fr
      by (auto split: option.splits)
  qed
qed

lemma frames_ticks:
  assumes "frameQueue s = [(h, env)]" and "0 < spinDuration env"
    and "sorted (t0 # ts)"
    and "tickSounds s = base @ new"
    and "sorted_wrt (\<lambda>a b. b \<le> a) new"
    and "\<forall>r\<in>set new. r \<le> 1 \<and>
           max 0.05 (1 - (if animationStart env = 0 then 0
                            else min ((t0 - animationStart env) / spinDuration env) 1)) \<le> r"
    and "animationStart env \<noteq> 0 \<longrightarrow> animationStart env \<le> t0"
  shows "\<exists>new'. tickSounds (fold animationFrame ts s) = base @ new'
           \<and> sorted_wrt (\<lambda>a b. b \<le> a) new'
           \<and> (\<forall>r\<in>set new'. 0.05 \<le> r \<and> r \<le> 1)"
  using assms
proof (induction ts arbitrary: s h env t0 new)
  case Nil
  then show ?case by (auto intro!: exI [of _ new] elim: order_trans [rotated])
next
  case (Cons t ts)
  let ?cleared = "s\<lparr>frameQueue := []\<rparr>"
  let ?next = "step env t ?cleared"
  let ?d = "spinDuration env"
  let ?prev = "if animationStart env = 0 then 0 else min ((t0 - animationStart env) / ?d) 1"
  let ?p = "frameProgress env t"
  have fr: "animationFrame t s = ?next" by (rule frame_single [OF Cons.prems(1)])
  have le: "t0 \<le> t" and srt: "sorted (t # ts)" using Cons.prems(3) by auto
  have d: "0 < ?d" by (rule Cons.prems(2))
  have mono: "?prev \<le> ?p"
  proof (cases "animationStart env = 0")
    case True
    then show ?thesis by (simp add: frameProgress_def frameStart_def Let_def)
  next
    case False
    have "(t0 - animationStart env) / ?d \<le> (t - animationStart env) / ?d"
      using le d by (simp add: divide_right_mono)
    then show ?thesis using False by (simp add: frameProgress_def frameStart_def Let_def min_def)
  qed
  have pdef: "?p = min ((t - frameStart env t) / ?d) 1" by (simp add: frameProgress_def Let_def)
  have p0: "0 \<le> ?p"
  proof -
    have "0 \<le> t - frameStart env t" using Cons.prems(7) le by (auto simp: frameStart_def)
    then have "0 \<le> (t - frameStart env t) / ?d" using d by simp
    then show ?thesis by (simp add: pdef)
  qed
  define tick where "tick = max 0.05 (1 - ?p)"
  have tick: "0.05 \<le> tick" "tick \<le> 1" "tick \<le> max 0.05 (1 - ?prev)"
    using p0 mono by (simp_all add: tick_def max_def)
  obtain add where add: "tickSounds ?next = base @ new @ add" "add = [] \<or> add = [tick]"
    using step_ticks [of env t ?cleared] Cons.prems(4) by (auto simp: tick_def)
  have sorted': "sorted_wrt (\<lambda>a b. b \<le> a) (new @ add)"
    using add(2) Cons.prems(5,6) tick(3) by (auto simp: sorted_wrt_append)
  have bound': "\<forall>r\<in>set (new @ add). r \<le> 1 \<and> tick \<le> r"
    using add(2) Cons.prems(6) tick by auto
  show ?case
  proof (cases "?p < 1")
    case False
    have "frameQueue ?next = []" using step_done(1) [OF False, of ?cleared] by simp
    then have "fold animationFrame ts ?next = ?next" by (rule frames_idle)
    then have "tickSounds (fold animationFrame (t # ts) s) = base @ (new @ add)"
      using fr add(1) by simp
    moreover have "\<forall>r\<in>set (new @ add). 0.05 \<le> r \<and> r \<le> 1"
    proof
      fix r assume "r \<in> set (new @ add)"
      then have "r \<le> 1" "tick \<le> r" using bound' by auto
      then show "0.05 \<le> r \<and> r \<le> 1" using tick(1) by linarith
    qed
    ultimately show ?thesis using sorted' by blast
  next
    case True
    obtain env' where q: "frameQueue ?next = [(nextFrameId ?cleared, env')]"
      and e: "animationStart env' = frameStart env t" "spinDuration env' = ?d"
      using step_running(1) [OF True, of ?cleared] by auto
    have d': "0 < spinDuration env'" using d e by simp
    have st: "animationStart env' \<noteq> 0 \<longrightarrow> animationStart env' \<le> t"
      using e(1) Cons.prems(7) le by (auto simp: frameStart_def)
    have zero: "frameStart env t = 0 \<Longrightarrow> t = 0"
      by (simp add: frameStart_def split: if_splits)
    have same: "(if animationStart env' = 0 then 0
                 else min ((t - animationStart env') / spinDuration env') 1) = ?p"
      using e zero by (auto simp: pdef)
    have b2: "\<forall>r\<in>set (new @ add). r \<le> 1 \<and>
           max 0.05 (1 - (if animationStart env' = 0 then 0
                            else min ((t - animationStart env') / spinDuration env') 1)) \<le> r"
      unfolding same using bound' by (simp add: tick_def)
    have ts: "tickSounds ?next = base @ (new @ add)" using add(1) by simp
    show ?thesis using Cons.IH [OF q d' srt ts sorted' b2 st] fr by simp
  qed
qed

section \<open>A spin started from rest\<close>

lemma unit_draws_bounds: "unit_draws g \<Longrightarrow> 0 \<le> fst g i \<and> fst g i < 1"
  by (simp add: unit_draws_def)

lemma loops_range:
  fixes r :: real
  assumes "0 \<le> r" "r < 1"
  shows "2 \<le> 2 + \<lfloor>r * 4\<rfloor> \<and> 2 + \<lfloor>r * 4\<rfloor> \<le> 5"
proof -
  have "0 \<le> \<lfloor>r * real 4\<rfloor> \<and> \<lfloor>r * real 4\<rfloor> < int 4"
    using assms by (intro floor_draw_nat) auto
  then show ?thesis by simp
qed

lemma js_index_in: "0 \<le> i \<Longrightarrow> i < int (length xs) \<Longrightarrow> js_index xs i = Some (xs ! nat i)"
  by (simp add: js_index_def)

text \<open>What a spin that starts from rest leaves behind, in one place.\<close>

lemma spin_from_rest:
  assumes idle: "\<not> isSpinningRef s0" and empty: "frameQueue s0 = []"
    and draws: "unit_draws (random s0)"
    and pool: "pool = (if length active > 0 then active else heroes)" "pool \<noteq> []"
  shows "\<exists>env.
      frameQueue (spinRoulette d active heroes s0) = [(nextFrameId s0, env)]
    \<and> isSpinningRef (spinRoulette d active heroes s0)
    \<and> tickSounds (spinRoulette d active heroes s0) = tickSounds s0
    \<and> winSounds (spinRoulette d active heroes s0) = winSounds s0
    \<and> selectedHero (spinRoulette d active heroes s0) = None
    \<and> baseHeroesRef (spinRoulette d active heroes s0) = shuffledHeroes env
    \<and> heroSlotWidthRef (spinRoulette d active heroes s0) = slotWidth env
    \<and> slotWidth env = heroSlotWidthRef (measureHeroSlotWidth d s0)
    \<and> mset (shuffledHeroes env) = mset pool
    \<and> randomIndex env = fst (drawRandomIndex (length pool) (snd (shuffleList pool (random s0))))
    \<and> 0 \<le> randomIndex env \<and> randomIndex env < int (length pool)
    \<and> randomHero env = Some (shuffledHeroes env ! nat (randomIndex env))
    \<and> 2 \<le> extraLoops env \<and> extraLoops env \<le> 5
    \<and> finalOffset env = - (of_int (middleRepeatIndex * int (length pool)
                                      + extraLoops env * int (length pool)
                                      + randomIndex env) * slotWidth env)
    \<and> spinDuration env = BASE_SPIN_DURATION + of_int (extraLoops env) * SPIN_DURATION_PER_LOOP
    \<and> 0 < spinDuration env
    \<and> animationStart env = 0
    \<and> availableCount env = length pool"
proof -
  obtain env where env:
    "frameQueue (spinRoulette d active heroes s0)
        = filter (\<lambda>entry. Some (fst entry) \<noteq> animationFrameRef s0 \<or> fst entry = 0) (frameQueue s0)
          @ [(nextFrameId s0, env)]"
    "isSpinningRef (spinRoulette d active heroes s0)"
    "tickSounds (spinRoulette d active heroes s0) = tickSounds s0"
    "baseHeroesRef (spinRoulette d active heroes s0) = shuffledHeroes env"
    "heroSlotWidthRef (spinRoulette d active heroes s0) = slotWidth env"
    "shuffledHeroes env = fst (shuffleList pool (random s0))"
    "randomIndex env = fst (drawRandomIndex (length pool) (snd (shuffleList pool (random s0))))"
    "randomHero env = js_index (shuffledHeroes env) (randomIndex env)"
    "extraLoops env
        = 2 + \<lfloor>fst (Math_random (snd (drawRandomIndex (length pool) (snd (shuffleList pool (random s0)))))) * 4\<rfloor>"
    "slotWidth env = heroSlotWidthRef (measureHeroSlotWidth d s0)"
    "targetIndex env = middleRepeatIndex * int (length pool) + extraLoops env * int (length pool) + randomIndex env"
    "finalOffset env = - (of_int (targetIndex env) * slotWidth env)"
    "spinDuration env = BASE_SPIN_DURATION + of_int (extraLoops env) * SPIN_DURATION_PER_LOOP"
    "animationStart env = 0"
    "winSounds (spinRoulette d active heroes s0) = winSounds s0"
    "selectedHero (spinRoulette d active heroes s0) = None"
    "availableCount env = length pool"
    using spin_started [OF idle pool, of d] by blast
  obtain shuffled g where sh: "shuffleList pool (random s0) = (shuffled, g)"
    by (cases "shuffleList pool (random s0)")
  have ms: "mset (shuffledHeroes env) = mset pool" using shuffleList_mset [OF sh] env(6) sh by simp
  have len: "length (shuffledHeroes env) = length pool" using ms by (rule mset_eq_length)
  have g: "unit_draws g" using shuffleList_draws [OF sh] draws by (simp add: unit_draws_def)
  have n: "0 < length pool" using pool(2) by simp
  have idx: "0 \<le> randomIndex env \<and> randomIndex env < int (length pool)"
    using drawRandomIndex_range [OF g n] env(7) sh by simp
  have g1: "unit_draws (snd (drawRandomIndex (length pool) g))"
    using g drawRandomIndex_draws [of "length pool" g] by (simp add: unit_draws_def)
  have "2 \<le> extraLoops env \<and> extraLoops env \<le> 5"
    using loops_range [of "fst (Math_random (snd (drawRandomIndex (length pool) g)))"]
      unit_draws_bounds [OF g1] env(9) sh by (simp add: Math_random_def)
  then have loops: "2 \<le> extraLoops env" "extraLoops env \<le> 5" by simp_all
  have "0 \<le> (of_int (extraLoops env) :: real)" using loops(1) by simp
  then have dur: "0 < spinDuration env"
    by (simp add: env(13) BASE_SPIN_DURATION_def SPIN_DURATION_PER_LOOP_def add_pos_nonneg)
  have hero: "randomHero env = Some (shuffledHeroes env ! nat (randomIndex env))"
    using idx len by (simp add: env(8) js_index_in)
  have q: "frameQueue (spinRoulette d active heroes s0) = [(nextFrameId s0, env)]"
    using env(1) empty by simp
  show ?thesis
    using q env(2,3,4,5,7,10,13,14,15,16,17) ms idx hero loops dur env(12) [unfolded env(11)]
    by (intro exI [of _ env]) simp
qed

section \<open>At most one frame loop\<close>

lemma mounted_rest:
  "reachable (mounted g)" "\<not> isSpinningRef (mounted g)" "random (mounted g) = g"
  "frameQueue (mounted g) = []"
  by (simp_all add: r_mounted) (simp_all add: mounted_def)

lemma zero_draws_unit: "unit_draws (zero_draws, k)"
  by (simp add: unit_draws_def zero_draws_def)

lemma spin_cancels:
  assumes "\<not> isSpinningRef s" "animationFrameRef s = Some k" "k \<noteq> 0" "k < nextFrameId s"
  shows "k \<notin> fst ` set (frameQueue (spinRoulette d active heroes s))"
proof (cases "(if length active > 0 then active else heroes) = []")
  case True
  then have "active = []" "heroes = []" by (auto split: if_splits)
  then show ?thesis using assms spin_empty(5) [of s active heroes d] by auto
next
  case False
  obtain env where
    "frameQueue (spinRoulette d active heroes s)
        = filter (\<lambda>entry. Some (fst entry) \<noteq> animationFrameRef s \<or> fst entry = 0) (frameQueue s)
          @ [(nextFrameId s, env)]"
    using spin_started [OF assms(1) refl False, of d] by blast
  then show ?thesis using assms by auto
qed

lemma spin_starts_iff:
  assumes "\<not> isSpinningRef s"
  shows "isSpinningRef (spinRoulette d a h s) \<longleftrightarrow> \<not> (a = [] \<and> h = [])"
proof (cases "(if length a > 0 then a else h) = []")
  case True
  then have e: "a = []" "h = []" by (auto split: if_splits)
  then show ?thesis using spin_empty(1) [OF assms e, of d] by simp
next
  case False
  then have "\<not> (a = [] \<and> h = [])" by auto
  moreover have "isSpinningRef (spinRoulette d a h s)"
    using spin_started [OF assms refl False, of d] by blast
  ultimately show ?thesis by simp
qed

section \<open>Empty pools and the fallback to the catalogue\<close>



section \<open>The end of a spin\<close>

lemma visualOffset_lower:
  assumes "0 < w" "0 < n"
  shows "\<exists>v. visualOffset m w n x = Some v \<and> - (of_int m * (real n * w)) \<le> v
           \<and> (\<exists>k. v = x + of_int k * (real n * w))"
proof -
  have L: "0 < real n * w" using assms by simp
  define v where "v = x - real n * w * of_int \<lfloor>x / (real n * w)\<rfloor> - of_int m * (real n * w)"
  have "visualOffset m w n x = Some v" by (simp only: visualOffset_pos [OF assms] v_def)
  moreover have "- (of_int m * (real n * w)) \<le> v"
    using frac_part_bounds(1) [OF L, of x] by (simp add: v_def)
  moreover have "v = x + of_int (- \<lfloor>x / (real n * w)\<rfloor> - m) * (real n * w)"
    by (simp add: v_def algebra_simps)
  ultimately show ?thesis by blast
qed

lemma spin_width:
  assumes "\<not> isSpinningRef s"
  shows "heroSlotWidthRef (spinRoulette d a h s) = heroSlotWidthRef (measureHeroSlotWidth d s)"
proof (cases "(if length a > 0 then a else h) = []")
  case True
  then have e: "a = []" "h = []" by (auto split: if_splits)
  have "heroSlotWidthRef (measureHeroSlotWidth d (c\<lparr>isSpinningRef := True, isSpinning := True, selectedHero := None\<rparr>))
         = heroSlotWidthRef (measureHeroSlotWidth d s)"
    if "rouletteRef c = rouletteRef s" "heroSlotWidthRef c = heroSlotWidthRef s" for c
    using that by (simp add: measureHeroSlotWidth_def Let_def split: option.splits)
  then show ?thesis using assms e
    by (simp add: spinRoulette_def shuffleList_def Let_def cancel_fields split: option.splits)
next
  case False
  show ?thesis using spin_started [OF assms refl False, of d] by auto
qed

lemma spin_mounted: "(rouletteRef (spinRoulette d a h s) = None) = (rouletteRef s = None)"
proof (cases "isSpinningRef s")
  case True
  then show ?thesis by (simp add: spin_busy)
next
  case idle: False
  show ?thesis
  proof (cases "(if length a > 0 then a else h) = []")
    case True
    then have e: "a = []" "h = []" by (auto split: if_splits)
    show ?thesis using spin_empty(8) [OF idle e, of d] by simp
  next
    case False
    show ?thesis using spin_started [OF idle refl False, of d] by auto
  qed
qed

lemma frame_width: "heroSlotWidthRef (animationFrame t s) = heroSlotWidthRef s"
proof -
  have run: "heroSlotWidthRef (fold (\<lambda>entry. step (snd entry) t) q c) = heroSlotWidthRef c" for q c
    by (induction q arbitrary: c) (simp_all add: step_refs)
  show ?thesis by (simp add: animationFrame_def run)
qed

lemma reachable_width: "reachable s \<Longrightarrow> 0 < heroSlotWidthRef s"
proof (induction rule: reachable.induct)
  case (r_mounted g)
  show ?case by (simp add: mounted_def DEFAULT_HERO_SLOT_WIDTH_def)
next
  case (r_spin s firstHero active heroes)
  then show ?case
    by (cases "isSpinningRef s") (simp_all add: spin_busy spin_width measure_positive)
next
  case (r_frame s timestamp)
  then show ?case by (simp add: frame_width)
next
  case (r_reset s active heroes)
  then show ?case
    by (simp add: resetRoulette_def Let_def applyVisualOffset_fields split: prod.splits)
next
  case (r_rebuild s active heroes)
  then show ?case by (simp add: rebuildPool_def Let_def split: prod.splits)
next
  case (r_measure s firstHero)
  then show ?case by (simp add: measure_positive)
next
  case (r_offset s rawOffset)
  then show ?case by (simp add: applyVisualOffset_fields)
qed (simp_all add: filter_ops_frames)

lemma two_frames_complete:
  assumes q: "frameQueue s = [(h, env)]" and a: "animationStart env = 0"
    and d: "0 < spinDuration env" and t1: "t1 \<noteq> 0" and t2: "spinDuration env \<le> t2 - t1"
  shows "\<not> isSpinningRef (fold animationFrame [t1, t2] s)"
proof -
  let ?c = "s\<lparr>frameQueue := []\<rparr>"
  have p1: "frameProgress env t1 < 1" using a by (simp add: frameProgress_def frameStart_def)
  obtain env' where q': "frameQueue (step env t1 ?c) = [(nextFrameId ?c, env')]"
    and e: "animationStart env' = frameStart env t1" "spinDuration env' = spinDuration env"
    using step_running(1) [OF p1, of ?c] by auto
  have "1 \<le> (t2 - t1) / spinDuration env" using d t2 by simp
  then have p2: "\<not> frameProgress env' t2 < 1"
    using e a t1 by (simp add: frameProgress_def frameStart_def)
  let ?c' = "(step env t1 ?c)\<lparr>frameQueue := []\<rparr>"
  have "\<not> isSpinningRef (step env' t2 ?c')" by (rule step_done(4) [OF p2])
  then show ?thesis by (simp add: frame_single [OF q] frame_single [OF q'])
qed

section \<open>The winner\<close>

text \<open>
  Claim C2. A spin started from rest over a non-empty list draws an index in
  \<open>[0, poolSize)\<close>; when \<open>poolSize > 1\<close>, the first draw gives index 0 and the second draw is
  below 0.35, the index is in \<open>[1, poolSize)\<close>. The winner kept by the frame callback is the
  hero at that index of the list just shuffled and committed as \<open>baseHeroesRef\<close>, a
  permutation of the list before the spin, so the winner is one of its members; a list of
  one hero gives that hero. When the frames complete the spin, that hero is published as
  \<open>selectedHero\<close>.
\<close>

theorem spin_selects_member:
  assumes reach: "reachable s" and idle: "\<not> isSpinningRef s" and draws: "unit_draws (random s)"
    and pool: "pool = (if length active > 0 then active else heroes)" "pool \<noteq> []"
    and g: "g = snd (shuffleList pool (random s))"
  shows "\<exists>h env. frameQueue (spinRoulette d active heroes s) = [(h, env)]
     \<and> baseHeroesRef (spinRoulette d active heroes s) = shuffledHeroes env
     \<and> mset (shuffledHeroes env) = mset pool
     \<and> 0 \<le> randomIndex env \<and> randomIndex env < int (length pool)
     \<and> (1 < length pool \<and> \<lfloor>fst g (snd g) * real (length pool)\<rfloor> = 0 \<and> fst g (Suc (snd g)) < 0.35
          \<longrightarrow> 1 \<le> randomIndex env)
     \<and> randomHero env = Some (shuffledHeroes env ! nat (randomIndex env))
     \<and> shuffledHeroes env ! nat (randomIndex env) \<in> set pool
     \<and> (\<forall>x. pool = [x] \<longrightarrow> randomHero env = Some x)
     \<and> (\<forall>ts. \<not> isSpinningRef (fold animationFrame ts (spinRoulette d active heroes s)) \<longrightarrow>
            selectedHero (fold animationFrame ts (spinRoulette d active heroes s)) = randomHero env)"
proof -
  let ?s = "spinRoulette d active heroes s"
  have q0: "frameQueue s = []" using reachable_single [OF reach] idle by simp
  obtain env where env:
    "frameQueue ?s = [(nextFrameId s, env)]" "isSpinningRef ?s"
    "baseHeroesRef ?s = shuffledHeroes env" "mset (shuffledHeroes env) = mset pool"
    "randomIndex env = fst (drawRandomIndex (length pool) (snd (shuffleList pool (random s))))"
    "0 \<le> randomIndex env" "randomIndex env < int (length pool)"
    "randomHero env = Some (shuffledHeroes env ! nat (randomIndex env))"
    using spin_from_rest [OF idle q0 draws pool, of d] by blast
  have len: "length (shuffledHeroes env) = length pool" using env(4) by (rule mset_eq_length)
  have "shuffledHeroes env ! nat (randomIndex env) \<in> set (shuffledHeroes env)"
    using env(6,7) len by (intro nth_mem) simp
  then have mem: "shuffledHeroes env ! nat (randomIndex env) \<in> set pool"
    using mset_eq_setD [OF env(4)] by simp
  have single: "randomHero env = Some x" if "pool = [x]" for x
    using mem env(8) that by simp
  obtain ys where sh: "shuffleList pool (random s) = (ys, g)"
    using g by (cases "shuffleList pool (random s)") simp
  have ug: "unit_draws g" using shuffleList_draws [OF sh] draws by (simp add: unit_draws_def)
  have reroll: "1 \<le> randomIndex env"
    if "1 < length pool \<and> \<lfloor>fst g (snd g) * real (length pool)\<rfloor> = 0 \<and> fst g (Suc (snd g)) < 0.35"
    using drawRandomIndex_reroll [OF ug, of "length pool"] that env(5) g by simp
  have pub: "selectedHero (fold animationFrame ts ?s) = randomHero env"
    if "\<not> isSpinningRef (fold animationFrame ts ?s)" for ts
    using frames_winner [OF env(1,2) that] by simp
  show ?thesis
    using env(1,3,4,6,7,8) mem single reroll pub
    by (intro exI [of _ "nextFrameId s"] exI [of _ env]) simp
qed

theorem spin_selects_member_witness:
  "reachable (mounted (zero_draws, 0))
   \<and> unit_draws (random (mounted (zero_draws, 0)))
   \<and> (\<exists>h env. frameQueue (spinRoulette None [] [axe, bane] (mounted (zero_draws, 0))) = [(h, env)]
          \<and> 0 \<le> randomIndex env \<and> randomIndex env < 2
          \<and> shuffledHeroes env ! nat (randomIndex env) \<in> set [axe, bane])
   \<and> map (randomIndex \<circ> snd) (frameQueue (spinRoulette None [] [axe, bane] (mounted (zero_draws, 0))))
       = [1]
   \<and> selectedHero (fold animationFrame [1, 20000]
                      (spinRoulette None [] [axe, bane] (mounted (zero_draws, 0)))) = Some axe"
proof -
  let ?m = "mounted (zero_draws, 0)"
  have u: "unit_draws (random ?m)" by (simp add: mounted_rest zero_draws_unit)
  have p: "[axe, bane] = (if length ([] :: hero list) > 0 then [] else [axe, bane])" by simp
  have ne: "[axe, bane] \<noteq> []" by simp
  have i: "map (randomIndex \<circ> snd) (frameQueue (spinRoulette None [] [axe, bane] ?m)) = [1]"
    by code_simp
  have w: "selectedHero (fold animationFrame [1, 20000] (spinRoulette None [] [axe, bane] ?m)) = Some axe"
    by code_simp
  have "\<exists>h env. frameQueue (spinRoulette None [] [axe, bane] ?m) = [(h, env)]
          \<and> 0 \<le> randomIndex env \<and> randomIndex env < 2
          \<and> shuffledHeroes env ! nat (randomIndex env) \<in> set [axe, bane]"
    using spin_selects_member [OF mounted_rest(1,2) u p ne refl, of None] by auto
  then show ?thesis using u i w mounted_rest(1) by blast
qed

section \<open>Tick sounds\<close>

text \<open>
  Claim C7. Every call of the frame callback plays at most one tick, with speed ratio
  \<open>max(0.05, 1 - progress)\<close>. Over the frames of one spin started from rest, with timestamps
  that do not decrease, the speed ratios of the ticks, in the order played, do not
  increase; each is at least 0.05, so never 0, and at most 1.
\<close>

theorem tick_decay:
  assumes reach: "reachable s" and idle: "\<not> isSpinningRef s" and draws: "unit_draws (random s)"
    and pool: "pool = (if length active > 0 then active else heroes)" "pool \<noteq> []"
    and srt: "sorted ts"
  shows "(\<exists>new. tickSounds (fold animationFrame ts (spinRoulette d active heroes s))
                  = tickSounds s @ new
            \<and> sorted_wrt (\<lambda>a b. b \<le> a) new
            \<and> (\<forall>r\<in>set new. 0.05 \<le> r \<and> r \<noteq> 0 \<and> r \<le> 1))
     \<and> (\<forall>env t c. tickSounds (step env t c) = tickSounds c
            \<or> tickSounds (step env t c) = tickSounds c @ [max 0.05 (1 - frameProgress env t)])"
proof -
  let ?s = "spinRoulette d active heroes s"
  have q0: "frameQueue s = []" using reachable_single [OF reach] idle by simp
  obtain env where env:
    "frameQueue ?s = [(nextFrameId s, env)]" "tickSounds ?s = tickSounds s"
    "0 < spinDuration env" "animationStart env = 0"
    using spin_from_rest [OF idle q0 draws pool, of d] by blast
  define t0 where "t0 = (case ts of [] \<Rightarrow> 0 | t # _ \<Rightarrow> t)"
  have s0: "sorted (t0 # ts)" using srt by (cases ts) (auto simp: t0_def)
  have "\<exists>new. tickSounds (fold animationFrame ts ?s) = tickSounds s @ new
           \<and> sorted_wrt (\<lambda>a b. b \<le> a) new
           \<and> (\<forall>r\<in>set new. 0.05 \<le> r \<and> r \<le> 1)"
    using frames_ticks [OF env(1) env(3) s0, of "tickSounds s" "[]"] env(2,4) by simp
  then obtain new where new: "tickSounds (fold animationFrame ts ?s) = tickSounds s @ new"
    "sorted_wrt (\<lambda>a b. b \<le> a) new" "\<forall>r\<in>set new. 0.05 \<le> r \<and> r \<le> 1"
    by blast
  have "\<forall>r\<in>set new. 0.05 \<le> r \<and> r \<noteq> 0 \<and> r \<le> 1"
  proof
    fix r assume "r \<in> set new"
    then have "0.05 \<le> r" "r \<le> 1" using new(3) by auto
    then show "0.05 \<le> r \<and> r \<noteq> 0 \<and> r \<le> 1" by auto
  qed
  then show ?thesis using new(1,2) step_ticks by blast
qed

theorem tick_decay_witness:
  "reachable (mounted (zero_draws, 0))
   \<and> sorted [1, 3000, 5000, 6000, 7000, 8000, 9000, 10000, 20000 :: real]
   \<and> tickSounds (fold animationFrame [1, 3000, 5000, 6000, 7000, 8000, 9000, 10000, 20000]
                    (spinRoulette None [] [axe, bane] (mounted (zero_draws, 0))))
       = [1, 6801 / 11800, 5801 / 11800, 1 / 20]
   \<and> (\<exists>new. tickSounds (fold animationFrame [1, 3000, 5000, 6000, 7000, 8000, 9000, 10000, 20000]
                           (spinRoulette None [] [axe, bane] (mounted (zero_draws, 0))))
               = tickSounds (mounted (zero_draws, 0)) @ new
          \<and> sorted_wrt (\<lambda>a b. b \<le> a) new)"
proof -
  let ?m = "mounted (zero_draws, 0)"
  let ?ts = "[1, 3000, 5000, 6000, 7000, 8000, 9000, 10000, 20000 :: real]"
  have u: "unit_draws (random ?m)" by (simp add: mounted_rest zero_draws_unit)
  have p: "[axe, bane] = (if length ([] :: hero list) > 0 then [] else [axe, bane])" by simp
  have ne: "[axe, bane] \<noteq> []" by simp
  have srt: "sorted ?ts" by simp
  have tk: "tickSounds (fold animationFrame ?ts (spinRoulette None [] [axe, bane] ?m))
            = [1, 6801 / 11800, 5801 / 11800, 1 / 20]"
    by code_simp
  have "\<exists>new. tickSounds (fold animationFrame ?ts (spinRoulette None [] [axe, bane] ?m))
               = tickSounds ?m @ new \<and> sorted_wrt (\<lambda>a b. b \<le> a) new"
    using tick_decay [OF mounted_rest(1,2) u p ne srt, of None] by blast
  then show ?thesis using srt tk mounted_rest(1) by blast
qed

section \<open>Pending callbacks keep the constants of their spin\<close>

lemma step_random: "random (step env t s) = random s"
  by (simp add: step_def Let_def requestAnimationFrame_def playWinSound_def
      applyVisualOffset_fields playTick_fields playTickSound_def split: prod.splits)

lemma frame_random: "random (animationFrame t s) = random s"
proof -
  have run: "random (fold (\<lambda>entry. step (snd entry) t) q c) = random c" for q c
    by (induction q arbitrary: c) (simp_all add: step_random)
  show ?thesis by (simp add: animationFrame_def run)
qed

lemma spin_draws: "fst (random (spinRoulette d a h s)) = fst (random s)"
proof (cases "isSpinningRef s")
  case True
  then show ?thesis by (simp add: spin_busy)
next
  case idle: False
  show ?thesis
  proof (cases "(if length a > 0 then a else h) = []")
    case True
    then have e: "a = []" "h = []" by (auto split: if_splits)
    show ?thesis using idle e
      by (simp add: spinRoulette_def shuffleList_def Let_def measure_fields cancel_fields
          split: option.splits)
  next
    case False
    show ?thesis using spin_started [OF idle refl False, of d] by auto
  qed
qed

lemma reset_draws: "fst (random (resetRoulette a h s)) = fst (random s)"
proof -
  obtain ys g where sh: "shuffleList (if length a > 0 then a else h) (random s) = (ys, g)"
    by (cases "shuffleList (if length a > 0 then a else h) (random s)")
  have av: "(if a \<noteq> [] then a else h) = (if length a > 0 then a else h)"
    "(if a = [] then h else a) = (if length a > 0 then a else h)" by auto
  have "random (resetRoulette a h s) = g"
    using sh by (simp add: resetRoulette_def Let_def applyVisualOffset_fields av del: length_greater_0_conv)
  then show ?thesis using shuffleList_draws [OF sh] by simp
qed

lemma rebuild_draws: "fst (random (rebuildPool a h s)) = fst (random s)"
proof -
  obtain ys g where sh: "shuffleList (if length a > 0 then a else h) (random s) = (ys, g)"
    by (cases "shuffleList (if length a > 0 then a else h) (random s)")
  have "random (rebuildPool a h s) = g"
    using sh by (simp add: rebuildPool_def Let_def del: length_greater_0_conv)
  then show ?thesis using shuffleList_draws [OF sh] by simp
qed

lemma filter_ops_random:
  "random (loadHeroesData loaded roles s) = random s"
  "random (toggleRole r s) = random s"
  "random (clearRoles s) = random s"
  "random (toggleHeroBan i s) = random s"
  "random (clearHeroBans s) = random s"
  "random (banEffect s) = random s"
  by (simp_all add: loadHeroesData_def toggleRole_def clearRoles_def toggleHeroBan_def
      clearHeroBans_def banEffect_def split: option.splits)

text \<open>
  What holds of every frame callback that is pending in a reachable state: the constants
  it closes over are those of the spin that made it.
\<close>

lemma reachable_env:
  assumes "reachable s"
  shows "\<forall>h env. frameQueue s = [(h, env)] \<longrightarrow>
       finalOffset env = - (of_int (middleRepeatIndex * int (availableCount env)
                                     + extraLoops env * int (availableCount env)
                                     + randomIndex env) * slotWidth env)
     \<and> randomHero env = js_index (shuffledHeroes env) (randomIndex env)
     \<and> availableCount env = length (shuffledHeroes env)
     \<and> 0 < availableCount env
     \<and> 0 < slotWidth env
     \<and> (unit_draws (random s) \<longrightarrow>
            0 \<le> randomIndex env \<and> randomIndex env < int (availableCount env)
          \<and> 2 \<le> extraLoops env \<and> extraLoops env \<le> 5 \<and> 0 < spinDuration env)"
proof -
  define P where "P = (\<lambda>(g :: rand) (env :: step_env).
       finalOffset env = - (of_int (middleRepeatIndex * int (availableCount env)
                                     + extraLoops env * int (availableCount env)
                                     + randomIndex env) * slotWidth env)
     \<and> randomHero env = js_index (shuffledHeroes env) (randomIndex env)
     \<and> availableCount env = length (shuffledHeroes env)
     \<and> 0 < availableCount env
     \<and> 0 < slotWidth env
     \<and> (unit_draws g \<longrightarrow>
            0 \<le> randomIndex env \<and> randomIndex env < int (availableCount env)
          \<and> 2 \<le> extraLoops env \<and> extraLoops env \<le> 5 \<and> 0 < spinDuration env))"
  have cong: "P g' env = P g env" if "fst g' = fst g" for g g' env
    using that by (simp add: P_def unit_draws_def)
  have same: "\<forall>h env. frameQueue c' = [(h, env)] \<longrightarrow> P (random c') env"
    if "\<forall>h env. frameQueue c = [(h, env)] \<longrightarrow> P (random c) env"
      "frameQueue c' = frameQueue c" "fst (random c') = fst (random c)" for c c'
    using that cong [OF that(3)] by simp
  have main: "\<forall>h env. frameQueue s = [(h, env)] \<longrightarrow> P (random s) env"
    using assms
  proof (induction rule: reachable.induct)
    case (r_mounted g)
    show ?case by (simp add: mounted_def)
  next
    case (r_spin s firstHero active heroes)
    let ?n = "spinRoulette firstHero active heroes s"
    show ?case
    proof (cases "isSpinningRef s")
      case True
      show ?thesis using r_spin.IH unfolding spin_busy [OF True] .
    next
      case idle: False
      have q0: "frameQueue s = []" using reachable_single [OF r_spin.hyps] idle by simp
      show ?thesis
      proof (cases "(if length active > 0 then active else heroes) = []")
        case True
        then have e: "active = []" "heroes = []" by (auto split: if_splits)
        have "frameQueue ?n = []" using spin_empty(5) [OF idle e, of firstHero] q0 by simp
        then show ?thesis by simp
      next
        case False
        let ?pool = "if length active > 0 then active else heroes"
        obtain env where env:
          "frameQueue ?n
            = filter (\<lambda>entry. Some (fst entry) \<noteq> animationFrameRef s \<or> fst entry = 0) (frameQueue s)
              @ [(nextFrameId s, env)]"
          "shuffledHeroes env = fst (shuffleList ?pool (random s))"
          "availableCount env = length ?pool"
          "randomHero env = js_index (shuffledHeroes env) (randomIndex env)"
          "slotWidth env = heroSlotWidthRef (measureHeroSlotWidth firstHero s)"
          "targetIndex env = middleRepeatIndex * int (length ?pool) + extraLoops env * int (length ?pool) + randomIndex env"
          "finalOffset env = - (of_int (targetIndex env) * slotWidth env)"
          using spin_started [OF idle refl False, of firstHero] by blast
        have q: "frameQueue ?n = [(nextFrameId s, env)]" using env(1) q0 by simp
        obtain ys g where sh: "shuffleList ?pool (random s) = (ys, g)"
          by (cases "shuffleList ?pool (random s)")
        have len: "availableCount env = length (shuffledHeroes env)"
          using mset_eq_length [OF shuffleList_mset [OF sh]] env(2,3) sh by simp
        have w: "0 < slotWidth env"
          using measure_positive [OF reachable_width [OF r_spin.hyps]] env(5) by simp
        have n: "0 < availableCount env" using False env(3) by simp
        have fo: "finalOffset env = - (of_int (middleRepeatIndex * int (availableCount env)
                                     + extraLoops env * int (availableCount env)
                                     + randomIndex env) * slotWidth env)"
          using env(7) [unfolded env(6)] env(3) by simp
        have bounds: "0 \<le> randomIndex env \<and> randomIndex env < int (availableCount env)
            \<and> 2 \<le> extraLoops env \<and> extraLoops env \<le> 5 \<and> 0 < spinDuration env"
          if "unit_draws (random ?n)"
        proof -
          have u: "unit_draws (random s)"
            using that spin_draws [of firstHero active heroes s] by (simp add: unit_draws_def)
          obtain env' where env':
            "frameQueue ?n = [(nextFrameId s, env')]"
            "0 \<le> randomIndex env'" "randomIndex env' < int (length ?pool)"
            "2 \<le> extraLoops env'" "extraLoops env' \<le> 5" "0 < spinDuration env'"
            using spin_from_rest [OF idle q0 u refl False, of firstHero] by blast
          have "env' = env" using env'(1) q by simp
          then show ?thesis using env' env(3) by simp
        qed
        have "P (random ?n) env" unfolding P_def using fo env(4) len n w bounds by blast
        then show ?thesis using q by simp
      qed
    qed
  next
    case (r_frame s timestamp)
    show ?case
    proof (cases "isSpinningRef s")
      case False
      then have "frameQueue s = []" using reachable_single [OF r_frame.hyps] by simp
      then show ?thesis by (simp add: frame_idle)
    next
      case True
      then obtain h env where q: "frameQueue s = [(h, env)]"
        using reachable_single [OF r_frame.hyps] by auto
      let ?cleared = "s\<lparr>frameQueue := []\<rparr>"
      show ?thesis
      proof (cases "frameProgress env timestamp < 1")
        case run: True
        obtain env' where e:
          "frameQueue (step env timestamp ?cleared) = [(nextFrameId ?cleared, env')]"
          "spinDuration env' = spinDuration env" "finalOffset env' = finalOffset env"
          "randomHero env' = randomHero env" "slotWidth env' = slotWidth env"
          "shuffledHeroes env' = shuffledHeroes env" "availableCount env' = availableCount env"
          "randomIndex env' = randomIndex env" "extraLoops env' = extraLoops env"
          using step_running(1) [OF run, of ?cleared] by auto
        have "P (random s) env" using r_frame.IH q by simp
        then have "P (random s) env'" unfolding P_def using e(2-9) by auto
        then show ?thesis using e(1) by (simp add: frame_single [OF q] step_random)
      next
        case fin: False
        show ?thesis using step_done(1) [OF fin, of ?cleared] by (simp add: frame_single [OF q])
      qed
    qed
  next
    case (r_reset s active heroes)
    show ?case by (rule same [OF r_reset.IH]) (simp_all add: reset_fields reset_draws)
  next
    case (r_rebuild s active heroes)
    show ?case by (rule same [OF r_rebuild.IH]) (simp_all add: rebuild_fields rebuild_draws)
  next
    case (r_measure s firstHero)
    show ?case by (rule same [OF r_measure.IH]) (simp_all add: measure_fields)
  next
    case (r_offset s rawOffset)
    show ?case by (rule same [OF r_offset.IH]) (simp_all add: applyVisualOffset_fields)
  next
    case (r_load s heroesData getHeroRoles)
    show ?case by (rule same [OF r_load.IH]) (simp_all add: filter_ops_frames filter_ops_random)
  next
    case (r_toggleRole s role)
    show ?case by (rule same [OF r_toggleRole.IH]) (simp_all add: filter_ops_frames filter_ops_random)
  next
    case (r_clearRoles s)
    show ?case by (rule same [OF r_clearRoles.IH]) (simp_all add: filter_ops_frames filter_ops_random)
  next
    case (r_toggleBan s heroId)
    show ?case by (rule same [OF r_toggleBan.IH]) (simp_all add: filter_ops_frames filter_ops_random)
  next
    case (r_clearBans s)
    show ?case by (rule same [OF r_clearBans.IH]) (simp_all add: filter_ops_frames filter_ops_random)
  next
    case (r_banEffect s)
    show ?case by (rule same [OF r_banEffect.IH]) (simp_all add: filter_ops_frames filter_ops_random)
  qed
  then show ?thesis unfolding P_def .
qed

section \<open>The frame that completes a spin\<close>

lemma progress_le_one: "frameProgress env t \<le> 1"
  by (simp add: frameProgress_def Let_def)

lemma pressSpin_reachable: "reachable s \<Longrightarrow> reachable (pressSpin d s)"
  by (simp add: pressSpin_def r_spin)

lemma poolEffect_reachable: "reachable s \<Longrightarrow> reachable (poolEffect s)"
  by (simp add: poolEffect_def r_rebuild)

lemma frames_reachable: "reachable s \<Longrightarrow> reachable (fold animationFrame ts s)"
  by (induction ts arbitrary: s) (simp_all add: r_frame)

text \<open>
  Claim C3, as amended. In a state the controller can reach, whatever happened since the
  spin began, let a frame clear \<open>isSpinningRef\<close>: it is the first frame whose \<open>progress\<close> is 1.
  After it no frame callback is pending, \<open>animationFrameRef\<close> is null, \<open>isSpinning\<close> is false,
  the winner is the hero at \<open>randomIndex\<close> of the spin's shuffled list, and the raw offset
  \<open>virtualOffsetRef\<close> is exactly
  \<open>finalOffset = -(middleRepeatIndex * poolSize + extraLoops * poolSize + randomIndex) * slotWidth\<close>,
  with the pool size and the slot width of the spin. What a mounted strip shows is the
  visual offset of \<open>finalOffset\<close> for the slot width and the base list that the refs hold at
  that frame. When these are still those of the spin, the offset shown is \<open>finalOffset\<close> plus
  a whole number of loop widths and strictly greater than \<open>finalOffset\<close>.
\<close>

theorem spin_completion:
  assumes reach: "reachable s" and live: "isSpinningRef s"
    and fin: "\<not> isSpinningRef (animationFrame t s)"
  shows "\<exists>h env. frameQueue s = [(h, env)]
     \<and> frameProgress env t = 1
     \<and> finalOffset env = - (of_int (middleRepeatIndex * int (availableCount env)
                                       + extraLoops env * int (availableCount env)
                                       + randomIndex env) * slotWidth env)
     \<and> availableCount env = length (shuffledHeroes env)
     \<and> frameQueue (animationFrame t s) = []
     \<and> animationFrameRef (animationFrame t s) = None
     \<and> \<not> isSpinning (animationFrame t s)
     \<and> virtualOffsetRef (animationFrame t s) = finalOffset env
     \<and> selectedHero (animationFrame t s) = randomHero env
     \<and> randomHero env = js_index (shuffledHeroes env) (randomIndex env)
     \<and> rouletteRef (animationFrame t s) =
          (case rouletteRef s of
             None \<Rightarrow> None
           | Some _ \<Rightarrow> Some (Translate3d (visualOffset middleRepeatIndex (heroSlotWidthRef s)
                                             (length (baseHeroesRef s)) (finalOffset env))))
     \<and> (unit_draws (random s) \<longrightarrow>
          randomHero env = Some (shuffledHeroes env ! nat (randomIndex env)))
     \<and> (unit_draws (random s) \<and> rouletteRef s \<noteq> None
          \<and> heroSlotWidthRef s = slotWidth env \<and> length (baseHeroesRef s) = availableCount env
          \<longrightarrow> (\<exists>v k. rouletteRef (animationFrame t s) = Some (Translate3d (Some v))
                \<and> v = finalOffset env + of_int k * (real (availableCount env) * slotWidth env)
                \<and> finalOffset env < v))"
proof -
  let ?f = "animationFrame t s"
  let ?cleared = "s\<lparr>frameQueue := []\<rparr>"
  obtain h env where q: "frameQueue s = [(h, env)]"
    using reachable_single [OF reach] live by auto
  have fr: "?f = step env t ?cleared" by (rule frame_single [OF q])
  have np: "\<not> frameProgress env t < 1"
  proof
    assume "frameProgress env t < 1"
    then have "isSpinningRef (step env t ?cleared) = isSpinningRef ?cleared"
      by (rule step_running(4))
    then show False using fin live fr by simp
  qed
  then have p1: "frameProgress env t = 1" using progress_le_one [of env t] by linarith
  note d = step_done [OF np, of ?cleared]
  have inv: "finalOffset env = - (of_int (middleRepeatIndex * int (availableCount env)
                                       + extraLoops env * int (availableCount env)
                                       + randomIndex env) * slotWidth env)"
    "randomHero env = js_index (shuffledHeroes env) (randomIndex env)"
    "availableCount env = length (shuffledHeroes env)"
    "0 < availableCount env" "0 < slotWidth env"
    using reachable_env [OF reach, rule_format, OF q] by blast+
  have bnd: "0 \<le> randomIndex env" "randomIndex env < int (availableCount env)" "2 \<le> extraLoops env"
    if "unit_draws (random s)"
    using reachable_env [OF reach, rule_format, OF q] that by blast+
  have some: "randomHero env = Some (shuffledHeroes env ! nat (randomIndex env))"
    if "unit_draws (random s)"
    using bnd [OF that] inv(2,3) by (simp add: js_index_in)
  have ref: "rouletteRef ?f =
          (case rouletteRef s of
             None \<Rightarrow> None
           | Some _ \<Rightarrow> Some (Translate3d (visualOffset middleRepeatIndex (heroSlotWidthRef s)
                                             (length (baseHeroesRef s)) (finalOffset env))))"
    using d(9) fr by (auto split: option.splits)
  have und: "\<exists>v k. rouletteRef ?f = Some (Translate3d (Some v))
                \<and> v = finalOffset env + of_int k * (real (availableCount env) * slotWidth env)
                \<and> finalOffset env < v"
    if u: "unit_draws (random s)" and m: "rouletteRef s \<noteq> None"
      and same: "heroSlotWidthRef s = slotWidth env" "length (baseHeroesRef s) = availableCount env"
  proof -
    obtain v where v:
      "visualOffset middleRepeatIndex (slotWidth env) (availableCount env) (finalOffset env) = Some v"
      "- (of_int middleRepeatIndex * (real (availableCount env) * slotWidth env)) \<le> v"
      "\<exists>k. v = finalOffset env + of_int k * (real (availableCount env) * slotWidth env)"
      using visualOffset_lower [OF inv(5) inv(4)] by blast
    have "1 \<le> int (availableCount env)" using inv(4) by simp
    then have "2 * 1 \<le> extraLoops env * int (availableCount env)"
      using bnd(3) [OF u] by (intro mult_mono) auto
    then have "0 < extraLoops env * int (availableCount env) + randomIndex env"
      using bnd(1) [OF u] by linarith
    then have "0 < (of_int (extraLoops env * int (availableCount env) + randomIndex env) :: real)"
      by (simp only: of_int_0_less_iff)
    then have "0 < of_int (extraLoops env * int (availableCount env) + randomIndex env) * slotWidth env"
      using inv(5) by simp
    moreover have "finalOffset env
          = - (of_int middleRepeatIndex * (real (availableCount env) * slotWidth env))
            - of_int (extraLoops env * int (availableCount env) + randomIndex env) * slotWidth env"
      by (simp add: inv(1) algebra_simps)
    ultimately have "finalOffset env < v" using v(2) by linarith
    moreover have "rouletteRef ?f = Some (Translate3d (Some v))"
      using ref m v(1) same by (auto split: option.splits)
    ultimately show ?thesis using v(3) by blast
  qed
  show ?thesis
    using q p1 inv(1,2,3) d(1,2,5,6,7) fr ref some und
    by (intro exI [of _ h] exI [of _ env]) simp
qed

lemma samples_reachable:
  "reachable one_hero" "reachable two_heroes" "reachable axe_banned" "reachable three_banned"
  unfolding one_hero_def two_heroes_def axe_banned_def three_banned_def
  by (intro poolEffect_reachable r_load r_mounted r_toggleBan r_banEffect)+

theorem spin_completion_witness:
  "reachable (animationFrame 1 (pressSpin None two_heroes))
   \<and> isSpinningRef (animationFrame 1 (pressSpin None two_heroes))
   \<and> \<not> isSpinningRef (animationFrame 20000 (animationFrame 1 (pressSpin None two_heroes)))
   \<and> (\<exists>h env. frameQueue (animationFrame 1 (pressSpin None two_heroes)) = [(h, env)]
          \<and> frameProgress env 20000 = 1
          \<and> virtualOffsetRef (animationFrame 20000 (animationFrame 1 (pressSpin None two_heroes)))
              = finalOffset env
          \<and> selectedHero (animationFrame 20000 (animationFrame 1 (pressSpin None two_heroes)))
              = randomHero env)
   \<and> virtualOffsetRef (animationFrame 20000 (animationFrame 1 (pressSpin None two_heroes)))
       = - 1848
   \<and> rouletteRef (animationFrame 20000 (animationFrame 1 (pressSpin None two_heroes)))
       = Some (Translate3d (Some (- 840)))
   \<and> selectedHero (animationFrame 20000 (animationFrame 1 (pressSpin None two_heroes)))
       = Some axe"
proof -
  let ?s = "animationFrame 1 (pressSpin None two_heroes)"
  have r: "reachable ?s"
    by (intro r_frame pressSpin_reachable samples_reachable)
  have live: "isSpinningRef ?s" by code_simp
  have fin: "\<not> isSpinningRef (animationFrame 20000 ?s)" by code_simp
  have v: "virtualOffsetRef (animationFrame 20000 ?s) = - 1848" by code_simp
  have t: "rouletteRef (animationFrame 20000 ?s) = Some (Translate3d (Some (- 840)))"
    by code_simp
  have w: "selectedHero (animationFrame 20000 ?s) = Some axe" by code_simp
  have "\<exists>h env. frameQueue ?s = [(h, env)] \<and> frameProgress env 20000 = 1
          \<and> virtualOffsetRef (animationFrame 20000 ?s) = finalOffset env
          \<and> selectedHero (animationFrame 20000 ?s) = randomHero env"
    using spin_completion [OF r live fin] by blast
  then show ?thesis using r live fin v t w by blast
qed

text \<open>
  The completion of a spin whose pool is rebuilt while it runs: four heroes, three of
  them banned, a spin over the one that is left, then the bans are cleared (that button
  stays enabled during a spin) and the pool effect commits all four. The raw offset still
  ends at the \<open>finalOffset\<close> of the spin, \<open>-840\<close>, and the strip shows the visual offset of
  \<open>-840\<close> over the four heroes now in \<open>baseHeroesRef\<close>, \<open>-1512\<close>.
\<close>

lemma rebuilt_pool_completion:
  "reachable (animationFrame 1 (poolEffect (clearHeroBans (pressSpin None three_banned))))
   \<and> virtualOffsetRef (animationFrame 20000 (animationFrame 1
         (poolEffect (clearHeroBans (pressSpin None three_banned))))) = - 840
   \<and> rouletteRef (animationFrame 20000 (animationFrame 1
         (poolEffect (clearHeroBans (pressSpin None three_banned)))))
       = Some (Translate3d (Some (- 1512)))
   \<and> visualOffset middleRepeatIndex 168 4 (- 840) = Some (- 1512)"
proof -
  let ?s = "animationFrame 1 (poolEffect (clearHeroBans (pressSpin None three_banned)))"
  have r: "reachable ?s"
    by (intro r_frame pressSpin_reachable poolEffect_reachable r_clearBans samples_reachable)
  have v: "virtualOffsetRef (animationFrame 20000 ?s) = - 840" by code_simp
  have t: "rouletteRef (animationFrame 20000 ?s) = Some (Translate3d (Some (- 1512)))"
    by code_simp
  have n: "visualOffset middleRepeatIndex 168 4 (- 840) = Some (- 1512)" by code_simp
  show ?thesis using r v t n by blast
qed

text \<open>
  Claim C3 as stated fails for the offset that is shown: a catalogue of one hero, the spin
  button, slot width 168, two extra loops, two frames. \<open>finalOffset\<close> is \<open>-840\<close> and the raw
  offset ends there, but the strip is translated by \<open>-504\<close>.
\<close>

theorem snap_is_normalized:
  "\<not> isSpinningRef (fold animationFrame [1, 20000] (pressSpin None one_hero))
   \<and> map (finalOffset \<circ> snd) (frameQueue (pressSpin None one_hero)) = [- 840]
   \<and> virtualOffsetRef (fold animationFrame [1, 20000] (pressSpin None one_hero)) = - 840
   \<and> rouletteRef (fold animationFrame [1, 20000] (pressSpin None one_hero))
       = Some (Translate3d (Some (- 504)))
   \<and> rouletteRef (fold animationFrame [1, 20000] (pressSpin None one_hero))
       \<noteq> Some (Translate3d (Some (- 840)))"
proof -
  let ?s = "pressSpin None one_hero"
  let ?f = "fold animationFrame [1, 20000] ?s"
  have "\<not> isSpinningRef ?f" by code_simp
  moreover have "map (finalOffset \<circ> snd) (frameQueue ?s) = [- 840]" by code_simp
  moreover have "virtualOffsetRef ?f = - 840" by code_simp
  moreover have "rouletteRef ?f = Some (Translate3d (Some (- 504)))" by code_simp
  ultimately show ?thesis by simp
qed

section \<open>One loop and one winner\<close>

lemma frames_sounds:
  assumes "frameQueue s = [(h, env)]" and "isSpinningRef s"
  shows "(isSpinningRef (fold animationFrame ts s) \<longrightarrow>
            winSounds (fold animationFrame ts s) = winSounds s
          \<and> selectedHero (fold animationFrame ts s) = selectedHero s)
       \<and> (\<not> isSpinningRef (fold animationFrame ts s) \<longrightarrow>
            winSounds (fold animationFrame ts s) = Suc (winSounds s))"
  using assms
proof (induction ts arbitrary: s h env)
  case Nil
  then show ?case by simp
next
  case (Cons t ts)
  let ?cleared = "s\<lparr>frameQueue := []\<rparr>"
  let ?next = "step env t ?cleared"
  have fr: "animationFrame t s = ?next" by (rule frame_single [OF Cons.prems(1)])
  show ?case
  proof (cases "frameProgress env t < 1")
    case True
    obtain env' where q: "frameQueue ?next = [(nextFrameId ?cleared, env')]"
      using step_running(1) [OF True, of ?cleared] by auto
    have sp: "isSpinningRef ?next" using step_running(4) [OF True, of ?cleared] Cons.prems(2) by simp
    have same: "winSounds ?next = winSounds s" "selectedHero ?next = selectedHero s"
      using step_running(5,6) [OF True, of ?cleared] by simp_all
    show ?thesis using Cons.IH [OF q sp] same fr by simp
  next
    case False
    have "frameQueue ?next = []" using step_done(1) [OF False, of ?cleared] by simp
    then have "fold animationFrame ts ?next = ?next" by (rule frames_idle)
    then show ?thesis using step_done(4,8) [OF False, of ?cleared] fr by simp
  qed
qed

lemma unmount_clears:
  assumes "reachable s"
  shows "frameQueue (unmount s) = []"
proof (cases "isSpinningRef s")
  case False
  then show ?thesis using reachable_single [OF assms] by (simp add: unmount_def)
next
  case True
  then obtain h env where "frameQueue s = [(h, env)]" "animationFrameRef s = Some h" "0 < h"
    using reachable_single [OF assms] by auto
  then show ?thesis by (simp add: unmount_def cancelAnimationFrame_def)
qed

text \<open>
  Claim C6. In every state the controller can reach there is at most one pending frame
  callback, and none while it is idle. \<open>spinRoulette\<close> called while \<open>isSpinningRef\<close> is set
  returns the state as it is, so a second call right after a spin that started changes
  nothing. After \<open>spinRoulette\<close> or a frame there is still at most one callback pending. A
  handle held in \<open>animationFrameRef\<close> is no longer pending once \<open>spinRoulette\<close> has
  registered its own, and unmounting leaves no callback pending. Two calls in immediate
  succession from rest give one closure and one winner: while the spin runs no finish sound
  has been played and no hero is selected; once the frames have cleared \<open>isSpinningRef\<close> the
  finish sound has been played exactly once and the selected hero is the one of that
  closure; and the spin does end, at the second of two frames \<open>spinDuration\<close> apart.
\<close>

theorem one_frame_loop:
  assumes "reachable s"
  shows "length (frameQueue s) \<le> 1
     \<and> (\<not> isSpinningRef s \<longrightarrow> frameQueue s = [])
     \<and> (isSpinningRef s \<longrightarrow> spinRoulette d active heroes s = s)
     \<and> length (frameQueue (spinRoulette d active heroes s)) \<le> 1
     \<and> length (frameQueue (animationFrame t s)) \<le> 1
     \<and> (\<not> (active = [] \<and> heroes = []) \<longrightarrow>
          spinRoulette d' active' heroes' (spinRoulette d active heroes s)
            = spinRoulette d active heroes s)
     \<and> (\<forall>c k. \<not> isSpinningRef c \<and> animationFrameRef c = Some k \<and> k \<noteq> 0 \<and> k < nextFrameId c \<longrightarrow>
          k \<notin> fst ` set (frameQueue (spinRoulette d active heroes c)))
     \<and> frameQueue (unmount s) = []
     \<and> (\<not> isSpinningRef s \<and> unit_draws (random s) \<and> \<not> (active = [] \<and> heroes = []) \<longrightarrow>
          (\<exists>h env x.
              frameQueue (spinRoulette d' active' heroes' (spinRoulette d active heroes s))
                = [(h, env)]
            \<and> randomHero env = Some x
            \<and> (\<forall>ts. isSpinningRef (fold animationFrame ts
                         (spinRoulette d' active' heroes' (spinRoulette d active heroes s))) \<longrightarrow>
                   winSounds (fold animationFrame ts
                         (spinRoulette d' active' heroes' (spinRoulette d active heroes s)))
                     = winSounds s
                 \<and> selectedHero (fold animationFrame ts
                         (spinRoulette d' active' heroes' (spinRoulette d active heroes s)))
                     = None)
            \<and> (\<forall>ts. \<not> isSpinningRef (fold animationFrame ts
                         (spinRoulette d' active' heroes' (spinRoulette d active heroes s))) \<longrightarrow>
                   winSounds (fold animationFrame ts
                         (spinRoulette d' active' heroes' (spinRoulette d active heroes s)))
                     = Suc (winSounds s)
                 \<and> selectedHero (fold animationFrame ts
                         (spinRoulette d' active' heroes' (spinRoulette d active heroes s)))
                     = Some x)
            \<and> (\<forall>t1 t2. t1 \<noteq> 0 \<and> spinDuration env \<le> t2 - t1 \<longrightarrow>
                   \<not> isSpinningRef (fold animationFrame [t1, t2]
                         (spinRoulette d' active' heroes' (spinRoulette d active heroes s))))))"
proof -
  let ?s1 = "spinRoulette d active heroes s"
  let ?s2 = "spinRoulette d' active' heroes' ?s1"
  have one: "length (frameQueue c) \<le> 1 \<and> (\<not> isSpinningRef c \<longrightarrow> frameQueue c = [])"
    if "reachable c" for c
    using reachable_single [OF that] by auto
  have started: "isSpinningRef ?s1" if "\<not> (active = [] \<and> heroes = [])"
  proof (cases "isSpinningRef s")
    case True
    then show ?thesis by (simp add: spin_busy)
  next
    case False
    then show ?thesis using spin_starts_iff [OF False, of d active heroes] that by simp
  qed
  then have twice: "\<not> (active = [] \<and> heroes = []) \<longrightarrow> ?s2 = ?s1"
    by (simp add: spin_busy)
  have winner: "\<exists>h env x. frameQueue ?s2 = [(h, env)] \<and> randomHero env = Some x
            \<and> (\<forall>ts. isSpinningRef (fold animationFrame ts ?s2) \<longrightarrow>
                   winSounds (fold animationFrame ts ?s2) = winSounds s
                 \<and> selectedHero (fold animationFrame ts ?s2) = None)
            \<and> (\<forall>ts. \<not> isSpinningRef (fold animationFrame ts ?s2) \<longrightarrow>
                   winSounds (fold animationFrame ts ?s2) = Suc (winSounds s)
                 \<and> selectedHero (fold animationFrame ts ?s2) = Some x)
            \<and> (\<forall>t1 t2. t1 \<noteq> 0 \<and> spinDuration env \<le> t2 - t1 \<longrightarrow>
                   \<not> isSpinningRef (fold animationFrame [t1, t2] ?s2))"
    if idle: "\<not> isSpinningRef s" and u: "unit_draws (random s)"
      and ne: "\<not> (active = [] \<and> heroes = [])"
  proof -
    have q0: "frameQueue s = []" using reachable_single [OF assms] idle by simp
    have pool: "(if length active > 0 then active else heroes) \<noteq> []" using ne by auto
    obtain env where env:
      "frameQueue ?s1 = [(nextFrameId s, env)]" "isSpinningRef ?s1"
      "winSounds ?s1 = winSounds s" "selectedHero ?s1 = None"
      "randomHero env = Some (shuffledHeroes env ! nat (randomIndex env))"
      "0 < spinDuration env" "animationStart env = 0"
      using spin_from_rest [OF idle q0 u refl pool, of d] by blast
    have eq: "?s2 = ?s1" using twice ne by simp
    note sounds = frames_sounds [OF env(1,2)]
    have live: "winSounds (fold animationFrame ts ?s1) = winSounds s
                 \<and> selectedHero (fold animationFrame ts ?s1) = None"
      if "isSpinningRef (fold animationFrame ts ?s1)" for ts
      using sounds [of ts] that env(3,4) by simp
    have finished: "winSounds (fold animationFrame ts ?s1) = Suc (winSounds s)
                 \<and> selectedHero (fold animationFrame ts ?s1)
                     = Some (shuffledHeroes env ! nat (randomIndex env))"
      if "\<not> isSpinningRef (fold animationFrame ts ?s1)" for ts
      using sounds [of ts] frames_winner [OF env(1,2) that] that env(3,5) by simp
    have two: "\<not> isSpinningRef (fold animationFrame [t1, t2] ?s1)"
      if "t1 \<noteq> 0 \<and> spinDuration env \<le> t2 - t1" for t1 t2
      using two_frames_complete [OF env(1) env(7) env(6)] that by blast
    show ?thesis unfolding eq using env(1,5) live finished two by blast
  qed
  show ?thesis
    using one [OF assms] one [OF r_spin [OF assms]] one [OF r_frame [OF assms]]
      twice spin_cancels unmount_clears [OF assms] winner
    by (simp add: spin_busy)
qed



theorem one_frame_loop_witness:
  "reachable one_hero \<and> \<not> isSpinningRef one_hero
   \<and> reachable (spinRoulette None [axe] [axe] one_hero)
   \<and> isSpinningRef (spinRoulette None [axe] [axe] one_hero)
   \<and> length (frameQueue (spinRoulette None [axe] [axe] one_hero)) = 1
   \<and> spinRoulette None [bane] [bane] (spinRoulette None [axe] [axe] one_hero)
       = spinRoulette None [axe] [axe] one_hero
   \<and> isSpinningRef (fold animationFrame [1] (spinRoulette None [bane] [bane]
                       (spinRoulette None [axe] [axe] one_hero)))
   \<and> winSounds (fold animationFrame [1] (spinRoulette None [bane] [bane]
                       (spinRoulette None [axe] [axe] one_hero))) = 0
   \<and> \<not> isSpinningRef (fold animationFrame [1, 20000] (spinRoulette None [bane] [bane]
                       (spinRoulette None [axe] [axe] one_hero)))
   \<and> winSounds (fold animationFrame [1, 20000] (spinRoulette None [bane] [bane]
                       (spinRoulette None [axe] [axe] one_hero))) = 1
   \<and> selectedHero (fold animationFrame [1, 20000] (spinRoulette None [bane] [bane]
                       (spinRoulette None [axe] [axe] one_hero))) = Some axe
   \<and> frameQueue (unmount (spinRoulette None [axe] [axe] one_hero)) = []
   \<and> 1 \<notin> fst ` set (frameQueue (spinRoulette None [axe] [axe]
                 ((spinRoulette None [axe] [axe] one_hero)\<lparr>isSpinningRef := False\<rparr>)))
   \<and> map fst (frameQueue (spinRoulette None [axe] [axe]
                 ((spinRoulette None [axe] [axe] one_hero)\<lparr>isSpinningRef := False\<rparr>))) = [2]"
proof -
  let ?s1 = "spinRoulette None [axe] [axe] one_hero"
  let ?s2 = "spinRoulette None [bane] [bane] ?s1"
  let ?c = "?s1\<lparr>isSpinningRef := False\<rparr>"
  have r0: "reachable one_hero" by (rule samples_reachable)
  have r: "reachable ?s1" by (intro r_spin r0)
  have idle: "\<not> isSpinningRef one_hero" by code_simp
  have sp: "isSpinningRef ?s1" by code_simp
  have len: "length (frameQueue ?s1) = 1" by code_simp
  have ne: "\<not> ([axe] = [] \<and> [axe] = [])" by simp
  note thm0 = one_frame_loop [OF r0, of None "[axe]" "[axe]" 1 None "[bane]" "[bane]"]
  note thm1 = one_frame_loop [OF r, of None "[axe]" "[axe]" 1 None "[bane]" "[bane]"]
  have eq: "?s2 = ?s1" using thm0 ne by blast
  have l1: "isSpinningRef (fold animationFrame [1] ?s1)" by code_simp
  have w1: "winSounds (fold animationFrame [1] ?s1) = 0" by code_simp
  have l2: "\<not> isSpinningRef (fold animationFrame [1, 20000] ?s1)" by code_simp
  have w2: "winSounds (fold animationFrame [1, 20000] ?s1) = 1" by code_simp
  have h2: "selectedHero (fold animationFrame [1, 20000] ?s1) = Some axe" by code_simp
  have un: "frameQueue (unmount ?s1) = []" using thm1 by blast
  have c1: "\<not> isSpinningRef ?c" by simp
  have c2: "animationFrameRef ?c = Some 1" by code_simp
  have c3: "(1::nat) < nextFrameId ?c" by code_simp
  have cancel: "1 \<notin> fst ` set (frameQueue (spinRoulette None [axe] [axe] ?c))"
    using thm0 c1 c2 c3 by (metis One_nat_def nat.simps(3))
  have q2: "map fst (frameQueue (spinRoulette None [axe] [axe] ?c)) = [2]" by code_simp
  show ?thesis unfolding eq using r0 idle r sp len l1 w1 l2 w2 h2 un cancel q2 by simp
qed

section \<open>The double remainder\<close>

text \<open>
  Claim C5. For a positive slot width and a non-empty base list, \<open>offsetWithinLoop\<close> is the
  double remainder: \<open>rawOffset % loopWidth\<close> is a number \<open>r\<close> and \<open>(r + loopWidth) % loopWidth\<close> is
  the result. That result is \<open>rawOffset\<close> reduced modulo \<open>loopWidth\<close>, that is
  \<open>rawOffset - loopWidth * floor(rawOffset / loopWidth)\<close>: never negative, whatever the sign
  of the raw offset, and below \<open>loopWidth\<close>. The visual offset is that number minus
  \<open>middleRepeatIndex * loopWidth\<close>; it does not change when the raw offset moves by
  \<open>loopWidth = baseLength * slotWidth\<close>, or by any whole number of loop widths; and applying
  the same raw offset a second time changes nothing.
\<close>

theorem normalizer_periodic:
  assumes "0 < w" and "0 < n"
  shows "let loopWidth = real n * w in
     (\<exists>r inLoop. js_mod rawOffset loopWidth = Some r
        \<and> js_mod (r + loopWidth) loopWidth = Some inLoop
        \<and> offsetWithinLoop loopWidth rawOffset = Some inLoop
        \<and> 0 \<le> inLoop \<and> inLoop < loopWidth
        \<and> inLoop = rawOffset - loopWidth * of_int \<lfloor>rawOffset / loopWidth\<rfloor>
        \<and> visualOffset mri w n rawOffset = Some (inLoop - of_int mri * loopWidth))
     \<and> visualOffset mri w n (rawOffset + loopWidth)
         = visualOffset mri w n rawOffset
     \<and> (\<forall>k. visualOffset mri w n (rawOffset + of_int k * loopWidth)
         = visualOffset mri w n rawOffset)
     \<and> applyVisualOffset rawOffset (applyVisualOffset rawOffset s) = applyVisualOffset rawOffset s"
proof -
  define L where "L = real n * w"
  have L: "0 < L" using assms by (simp add: L_def)
  have nz: "\<not> (w = 0 \<or> n = 0)" using assms by simp
  have vo: "visualOffset mri w n x
            = (case offsetWithinLoop L x of None \<Rightarrow> None | Some i \<Rightarrow> Some (i - of_int mri * L))" for x
    using nz unfolding L_def by (simp add: visualOffset_def Let_def)
  define r where "r = rawOffset - L * of_int (js_trunc (rawOffset / L))"
  define f where "f = rawOffset - L * of_int \<lfloor>rawOffset / L\<rfloor>"
  have m1: "js_mod rawOffset L = Some r" using L by (simp add: js_mod_def r_def)
  have ow: "offsetWithinLoop L rawOffset = Some f"
    by (simp only: offsetWithinLoop_eq [OF L] f_def)
  have m2: "js_mod (r + L) L = Some f"
    using ow m1 by (simp add: offsetWithinLoop_def)
  have a: "\<exists>r inLoop. js_mod rawOffset L = Some r
        \<and> js_mod (r + L) L = Some inLoop
        \<and> offsetWithinLoop L rawOffset = Some inLoop
        \<and> 0 \<le> inLoop \<and> inLoop < L
        \<and> inLoop = rawOffset - L * of_int \<lfloor>rawOffset / L\<rfloor>
        \<and> visualOffset mri w n rawOffset = Some (inLoop - of_int mri * L)"
    using m1 m2 ow frac_part_bounds [OF L, of rawOffset]
    by (intro exI [of _ r] exI [of _ f]) (simp add: vo f_def)
  have c: "visualOffset mri w n (rawOffset + of_int k * L)
         = visualOffset mri w n rawOffset" for k
    by (simp only: vo offsetWithinLoop_period [OF L])
  have b: "visualOffset mri w n (rawOffset + L)
         = visualOffset mri w n rawOffset"
    using c [of 1] by simp
  show ?thesis unfolding Let_def L_def [symmetric] using a b c applyVisualOffset_idem by blast
qed

theorem normalizer_periodic_witness:
  "(0::real) < 168 \<and> (0::nat) < 2
   \<and> js_mod (- 1748) 336 = Some (- 68)
   \<and> js_mod (- 68 + 336) 336 = Some 268
   \<and> offsetWithinLoop 336 (- 1748) = Some 268
   \<and> visualOffset 3 168 2 (- 1748) = Some (- 740)
   \<and> visualOffset 3 168 2 (- 1748 + 336) = Some (- 740)
   \<and> offsetWithinLoop 336 500 = Some 164
   \<and> visualOffset 3 168 2 500 = Some (- 844)"
proof -
  have j1: "js_mod (- 1748) 336 = Some (- 68)" by code_simp
  have j2: "js_mod (- 68 + 336) 336 = Some 268" by code_simp
  have o: "offsetWithinLoop 336 (- 1748) = Some 268" by code_simp
  have v: "visualOffset 3 168 2 (- 1748) = Some (- 740)" by code_simp
  have o2: "offsetWithinLoop 336 500 = Some 164" by code_simp
  have v2: "visualOffset 3 168 2 500 = Some (- 844)" by code_simp
  show ?thesis using normalizer_periodic [of 168 2 "- 1748" 3] j1 j2 v o o2 v2 by (simp add: Let_def)
qed

section \<open>Spinning with an empty pool\<close>






text \<open>
  \<open>spinRoulette\<close> called past the disabled button, with the empty filtered pool of the state
  in which the only hero is banned: the spin runs over the catalogue, the completing frame
  selects the banned hero, and the ban effect deselects it.
\<close>

lemma direct_call_over_banned_catalogue:
  "activePool axe_banned = []
   \<and> isSpinningRef (spinRoulette None [] [axe] axe_banned)
   \<and> baseHeroesRef (spinRoulette None [] [axe] axe_banned) = [axe]
   \<and> selectedHero (fold animationFrame [1, 20000] (spinRoulette None [] [axe] axe_banned))
       = Some axe
   \<and> selectedHero (banEffect (fold animationFrame [1, 20000]
                                  (spinRoulette None [] [axe] axe_banned))) = None"
proof -
  have "activePool axe_banned = []" by code_simp
  moreover have "isSpinningRef (spinRoulette None [] [axe] axe_banned)" by code_simp
  moreover have "baseHeroesRef (spinRoulette None [] [axe] axe_banned) = [axe]" by code_simp
  moreover have "selectedHero (fold animationFrame [1, 20000]
                   (spinRoulette None [] [axe] axe_banned)) = Some axe" by code_simp
  moreover have "selectedHero (banEffect (fold animationFrame [1, 20000]
                   (spinRoulette None [] [axe] axe_banned))) = None" by code_simp
  ultimately show ?thesis by blast
qed

end
